theory Spec2Isabelle
  imports Main "HOL-Library.Sublist"
begin

section \<open>Strings\<close>

text \<open>
  A Go string is a sequence of bytes; \<^typ>\<open>string\<close> is a list of 8-bit characters, so
  the model works on the bytes of the UTF-8 text, as the Go runtime does.
\<close>

subsection \<open>\<^verbatim>\<open>strings.ReplaceAll\<close>\<close>

text \<open>
  \<^verbatim>\<open>strings.ReplaceAll(s, old, new)\<close> replaces the non-overlapping occurrences of
  \<^verbatim>\<open>old\<close>, found from left to right, by \<^verbatim>\<open>new\<close>. The model covers a non-empty
  \<^verbatim>\<open>old\<close> (the program passes a literal of 19 bytes); for an empty \<^verbatim>\<open>old\<close>, which
  Go treats specially, the model leaves the string unchanged.
\<close>

function ReplaceAll :: "string \<Rightarrow> string \<Rightarrow> string \<Rightarrow> string" where
  "ReplaceAll [] old new = []"
| "ReplaceAll (c # cs) old new =
     (if old \<noteq> [] \<and> prefix old (c # cs)
      then new @ ReplaceAll (drop (length old) (c # cs)) old new
      else c # ReplaceAll cs old new)"
  by pat_completeness auto
termination
  by (relation "measure (\<lambda>(s, old, new). length s)") auto

subsection \<open>White space\<close>

text \<open>
  Both \<^verbatim>\<open>strings.TrimSpace\<close> of Go and \<^verbatim>\<open>String.prototype.trim\<close> of the in-page
  script remove white-space characters from the two ends of a string. On UTF-8 text a
  white-space character stands exactly where the bytes of its encoding stand, so the
  model strips encodings: as prefixes at the front, as suffixes at the end. Go decodes
  the same way, one rune at a time, forwards at the front (\<^verbatim>\<open>DecodeRuneInString\<close>) and
  backwards at the end (\<^verbatim>\<open>DecodeLastRuneInString\<close>); a malformed byte decodes to
  U+FFFD, which is no white space.
\<close>

definition leadingEnc :: "string list \<Rightarrow> string \<Rightarrow> string option" where
  "leadingEnc encs s = find (\<lambda>e. prefix e s) encs"

definition trailingEnc :: "string list \<Rightarrow> string \<Rightarrow> string option" where
  "trailingEnc encs s = find (\<lambda>e. suffix e s) encs"

function trimLeftEnc :: "string list \<Rightarrow> string \<Rightarrow> string" where
  "trimLeftEnc encs s =
     (case leadingEnc encs s of
        None \<Rightarrow> s
      | Some e \<Rightarrow> if e = [] then s else trimLeftEnc encs (drop (length e) s))"
  by pat_completeness auto
termination
  by (relation "measure (\<lambda>(encs, s). length s)")
     (auto simp: leadingEnc_def find_Some_iff prefix_def)

declare trimLeftEnc.simps [simp del]

function trimRightEnc :: "string list \<Rightarrow> string \<Rightarrow> string" where
  "trimRightEnc encs s =
     (case trailingEnc encs s of
        None \<Rightarrow> s
      | Some e \<Rightarrow> if e = [] then s else trimRightEnc encs (take (length s - length e) s))"
  by pat_completeness auto
termination
  by (relation "measure (\<lambda>(encs, s). length s)")
     (auto simp: trailingEnc_def find_Some_iff suffix_def)

declare trimRightEnc.simps [simp del]

text \<open>
  The UTF-8 encodings of the white space common to \<^verbatim>\<open>unicode.IsSpace\<close> and to
  ECMAScript: tab, line feed, vertical tab, form feed, carriage return, space, U+00A0,
  U+1680, U+2000 to U+200A, U+2028, U+2029, U+202F, U+205F and U+3000.
\<close>

definition commonSpace :: "string list" where
  "commonSpace =
     [[CHR 0x09], [CHR 0x0A], [CHR 0x0B], [CHR 0x0C], [CHR 0x0D], [CHR 0x20],
      [CHR 0xC2, CHR 0xA0],
      [CHR 0xE1, CHR 0x9A, CHR 0x80],
      [CHR 0xE2, CHR 0x80, CHR 0x80], [CHR 0xE2, CHR 0x80, CHR 0x81],
      [CHR 0xE2, CHR 0x80, CHR 0x82], [CHR 0xE2, CHR 0x80, CHR 0x83],
      [CHR 0xE2, CHR 0x80, CHR 0x84], [CHR 0xE2, CHR 0x80, CHR 0x85],
      [CHR 0xE2, CHR 0x80, CHR 0x86], [CHR 0xE2, CHR 0x80, CHR 0x87],
      [CHR 0xE2, CHR 0x80, CHR 0x88], [CHR 0xE2, CHR 0x80, CHR 0x89],
      [CHR 0xE2, CHR 0x80, CHR 0x8A],
      [CHR 0xE2, CHR 0x80, CHR 0xA8], [CHR 0xE2, CHR 0x80, CHR 0xA9],
      [CHR 0xE2, CHR 0x80, CHR 0xAF],
      [CHR 0xE2, CHR 0x81, CHR 0x9F],
      [CHR 0xE3, CHR 0x80, CHR 0x80]]"

text \<open>\<^verbatim>\<open>unicode.IsSpace\<close> has U+0085 as well; ECMAScript has U+FEFF instead.\<close>

definition goSpace :: "string list" where
  "goSpace = [CHR 0xC2, CHR 0x85] # commonSpace"

definition jsSpace :: "string list" where
  "jsSpace = [CHR 0xEF, CHR 0xBB, CHR 0xBF] # commonSpace"

definition TrimSpace :: "string \<Rightarrow> string" where
  "TrimSpace s = trimRightEnc goSpace (trimLeftEnc goSpace s)"

subsection \<open>The regular expression \<^verbatim>\<open>[^a-zA-Z0-9._-]+\<close>\<close>

definition validChar :: "char \<Rightarrow> bool" where
  "validChar c =
     (let n = (of_char c :: nat)
      in (97 \<le> n \<and> n \<le> 122) \<or> (65 \<le> n \<and> n \<le> 90) \<or> (48 \<le> n \<and> n \<le> 57)
         \<or> n = 46 \<or> n = 95 \<or> n = 45)"

text \<open>
  \<^verbatim>\<open>invalidRE.ReplaceAllString(s, "_")\<close>: every maximal run of characters outside the
  class becomes one underscore. The class holds ASCII characters only, and no byte of a
  multi-byte or malformed UTF-8 sequence is ASCII, so the runs of runes outside the class
  are the runs of bytes outside it.
\<close>

function ReplaceAllString :: "string \<Rightarrow> string \<Rightarrow> string" where
  "ReplaceAllString [] repl = []"
| "ReplaceAllString (c # cs) repl =
     (if validChar c then c # ReplaceAllString cs repl
      else repl @ ReplaceAllString (dropWhile (\<lambda>d. \<not> validChar d) cs) repl)"
  by pat_completeness auto
termination
  by (relation "measure (\<lambda>(s, repl). length s)")
     (auto simp: length_dropWhile_le less_Suc_eq_le)

section \<open>The path sanitizer\<close>

definition sanitizeFileName :: "string \<Rightarrow> string" where
  "sanitizeFileName s =
     (let s1 = ReplaceAll s ''| LinkedIn Learning'' '''';
          s2 = TrimSpace s1
      in ReplaceAllString s2 ''_'')"

section \<open>Formatting integers\<close>

text \<open>
  \<^verbatim>\<open>strconv.Itoa\<close> and the verb \<^verbatim>\<open>%02d\<close> of \<^verbatim>\<open>fmt.Sprintf\<close>. The verb pads with
  zeros to a width of two, the sign included: 5 gives 05, 123 gives 123 and -5 gives -5.
  Go's \<^verbatim>\<open>int\<close> has 64 bits; the program formats such values and never computes with
  them, so \<^typ>\<open>int\<close> stands for it.
\<close>

function natDec :: "nat \<Rightarrow> string" where
  "natDec n =
     (if n < 10 then [char_of (48 + n)]
      else natDec (n div 10) @ [char_of (48 + n mod 10)])"
  by pat_completeness auto
termination
  by (relation "measure id") auto

declare natDec.simps [simp del]

definition Itoa :: "int \<Rightarrow> string" where
  "Itoa i = (if i < 0 then CHR ''-'' # natDec (nat (- i)) else natDec (nat i))"

definition fmt02d :: "int \<Rightarrow> string" where
  "fmt02d i =
     (if i < 0 then CHR ''-'' # natDec (nat (- i))
      else if i < 10 then CHR ''0'' # natDec (nat i)
      else natDec (nat i))"

section \<open>Lesson entries\<close>

record VideoEntry =
  Href :: string
  Section :: string
  Title :: string
  Index :: int
  Duration :: string
  Transcript :: string
  filename :: string

text \<open>
  The base name of a lesson's files, as \<^verbatim>\<open>parseCourseVideos\<close> computes it:
  \<^verbatim>\<open>sanitizeFileName(fmt.Sprintf("%s.%02d.%s", v.Section, v.Index, v.Title))\<close>.
\<close>

definition outputStem :: "VideoEntry \<Rightarrow> string" where
  "outputStem v =
     sanitizeFileName (Section v @ ''.'' @ fmt02d (Index v) @ ''.'' @ Title v)"

section \<open>The in-page extraction script\<close>

text \<open>
  What \<^verbatim>\<open>videoParseJS\<close> reads of the page: the sections
  (\<^verbatim>\<open>section.classroom-toc-section\<close>) in document order; of each section the text of
  its toggle title, when the element is there, and its items
  (\<^verbatim>\<open>li.classroom-toc-item\<close>); of each item the \<^verbatim>\<open>href\<close> of its link, when it has
  a link, the child nodes of its title element, when it has one, and the text of its
  \<^verbatim>\<open>span\<close> elements.
\<close>

datatype node = TextNode string | OtherNode

record tocItem =
  linkHref :: "string option"
  titleChildNodes :: "node list option"
  spanTexts :: "string list"

record tocSection =
  toggleTitle :: "string option"
  tocItems :: "tocItem list"

datatype jsError = TypeError

definition jsTrim :: "string \<Rightarrow> string" where
  "jsTrim s = trimRightEnc jsSpace (trimLeftEnc jsSpace s)"

text \<open>
  \<^verbatim>\<open>toLowerCase\<close>, on the ASCII letters. A character beyond ASCII never becomes one
  of the letters of \<^verbatim>\<open>video\<close> alone, so the test \<^verbatim>\<open>endsWith("video")\<close> reads the
  same.
\<close>

definition toLowerCase :: "string \<Rightarrow> string" where
  "toLowerCase s =
     map (\<lambda>c. let n = (of_char c :: nat) in if 65 \<le> n \<and> n \<le> 90 then char_of (n + 32) else c) s"

fun splitOn :: "char \<Rightarrow> string \<Rightarrow> string list" where
  "splitOn sep [] = [[]]"
| "splitOn sep (c # cs) =
     (if c = sep then [] # splitOn sep cs
      else case splitOn sep cs of
             [] \<Rightarrow> [[c]]
           | p # ps \<Rightarrow> (c # p) # ps)"

text \<open>
  The title of an item: the trimmed text of the first child text node of the title
  element that is not blank. Without a title element, or without such a node, the
  expression reads a property of \<^verbatim>\<open>null\<close> or \<^verbatim>\<open>undefined\<close> and throws.
\<close>

definition nonBlankText :: "node \<Rightarrow> bool" where
  "nonBlankText n = (case n of TextNode t \<Rightarrow> jsTrim t \<noteq> [] | OtherNode \<Rightarrow> False)"

definition itemTitle :: "tocItem \<Rightarrow> jsError + string" where
  "itemTitle video =
     (case titleChildNodes video of
        None \<Rightarrow> Inl TypeError
      | Some nodes \<Rightarrow>
          (case find nonBlankText nodes of
             Some (TextNode t) \<Rightarrow> Inr (jsTrim t)
           | _ \<Rightarrow> Inl TypeError))"

definition itemDuration :: "tocItem \<Rightarrow> string" where
  "itemDuration video =
     (let duration =
            (case find (\<lambda>text. suffix ''video'' (toLowerCase text)) (map jsTrim (spanTexts video)) of
               None \<Rightarrow> []
             | Some text \<Rightarrow> text)
      in concat (butlast (splitOn CHR '' '' duration)))"

text \<open>
  The two loops, with the array \<^verbatim>\<open>results\<close> and the counter \<^verbatim>\<open>index\<close> as
  accumulators. The value that \<^verbatim>\<open>chromedp.Evaluate\<close> decodes into \<^verbatim>\<open>[]VideoEntry\<close>
  is built at once: a section name that is \<^verbatim>\<open>undefined\<close> is left out of the JSON and
  leaves the field empty, as the fields the script does not set are.
\<close>

definition pushResult ::
  "string \<Rightarrow> string option \<Rightarrow> string \<Rightarrow> int \<Rightarrow> string \<Rightarrow> VideoEntry" where
  "pushResult href sectionName title index duration =
     \<lparr>Href = href,
      Section = (case sectionName of None \<Rightarrow> [] | Some n \<Rightarrow> n),
      Title = title, Index = index, Duration = duration,
      Transcript = [], filename = []\<rparr>"

fun videoLoop ::
  "string option \<Rightarrow> tocItem list \<Rightarrow> int \<Rightarrow> VideoEntry list \<Rightarrow> jsError + VideoEntry list" where
  "videoLoop sectionName [] index results = Inr results"
| "videoLoop sectionName (video # videos) index results =
     (case itemTitle video of
        Inl exn \<Rightarrow> Inl exn
      | Inr title \<Rightarrow>
          (case linkHref video of
             None \<Rightarrow> videoLoop sectionName videos index results
           | Some href \<Rightarrow>
               videoLoop sectionName videos (index + 1)
                 (results @ [pushResult href sectionName title (index + 1) (itemDuration video)])))"

fun sectionLoop :: "tocSection list \<Rightarrow> VideoEntry list \<Rightarrow> jsError + VideoEntry list" where
  "sectionLoop [] results = Inr results"
| "sectionLoop (sec # sections) results =
     (case videoLoop (map_option jsTrim (toggleTitle sec)) (tocItems sec) 0 results of
        Inl exn \<Rightarrow> Inl exn
      | Inr results' \<Rightarrow> sectionLoop sections results')"

definition videoParseJS :: "tocSection list \<Rightarrow> jsError + VideoEntry list" where
  "videoParseJS page = sectionLoop page []"

section \<open>The process and its surroundings\<close>

text \<open>
  The program drives a browser, sleeps, logs, writes files and exits. The model keeps
  what it does, in order, as a trace of events, and the files it has written.
\<close>

datatype error =
    ChromeError string
  | ScriptException jsError
  | BadURL string
  | NavigationFailed string
  | NoTranscript string
  | ScrapeFailed string
  | CreateFailed string string
  | WriteJSONFailed string
  | WriteTranscriptFailed string
  | FindVideoFailed string
  | EmptyVideoURL
  | RequestFailed string
  | DownloadFailed string
  | BadStatus string
  | SaveFailed string

datatype logLine =
    NoDownloadRequested
  | LoggingIn
  | LoggedIn
  | ParsingCourse
  | Found nat nat
  | Lesson nat nat string string
  | VisitFailed error
  | Skipping error
  | NavigationRetry string
  | RateLimited
  | TranscriptSaved string
  | VideoSaved string
  | AllSaved
  | Fatal error

datatype event =
    Log logLine
  | Navigate string
  | Sleep int
  | Create string
  | HttpGet string
  | TimeoutCancel
  | ChromeCancel
  | AllocCancel
  | Exit nat

record proc =
  trace :: "event list"
  files :: "string \<rightharpoonup> string"

definition emit :: "event list \<Rightarrow> proc \<Rightarrow> proc" where
  "emit evs st = st\<lparr>trace := trace st @ evs\<rparr>"

definition writeFile :: "string \<Rightarrow> string \<Rightarrow> proc \<Rightarrow> proc" where
  "writeFile name content st = st\<lparr>files := (files st)(name \<mapsto> content)\<rparr>"

text \<open>
  The functions of Go's standard library that the program calls on its data and that
  the model does not define: \<^verbatim>\<open>url.Parse\<close>, the method \<^verbatim>\<open>String\<close> of
  \<^verbatim>\<open>url.URL\<close> and the JSON encoding of an entry. They are parameters; what is proved
  holds for every choice of them.
\<close>

record URL =
  Scheme :: string
  Opaque :: string
  User :: "(string \<times> string option) option"
  Host :: string
  Path :: string
  RawPath :: string
  OmitHost :: bool
  ForceQuery :: bool
  RawQuery :: string
  Fragment :: string
  RawFragment :: string

record stdlib =
  urlParse :: "string \<Rightarrow> string + URL"
  urlString :: "URL \<Rightarrow> string"
  jsonEncode :: "VideoEntry \<Rightarrow> string"

text \<open>
  What the browser, the file system and the network answer while one lesson is
  handled, call by call. \<^verbatim>\<open>visits\<close> holds the outcomes of the successive
  \<^verbatim>\<open>chromedp.Run\<close> calls of \<^verbatim>\<open>visitVideo\<close>: the run fails, or the page loads and the
  two markers \<^verbatim>\<open>rateLimited\<close> and \<^verbatim>\<open>hasTranscript\<close> are read.
\<close>

datatype attempt = RunFailed string | Loaded bool bool

record response =
  StatusCode :: int
  Status :: string
  Body :: string

record lessonWorld =
  visits :: "attempt list"
  scrape :: "string + string list"
  createTranscript :: "string option"
  writeTranscript :: "(nat \<times> string) option"
  findVideo :: "string + string"
  createVideo :: "string option"
  newRequest :: "string option"
  doRequest :: "string + response"
  copyBody :: "(nat \<times> string) option"

record world =
  ssoResult :: "string option"
  coursePage :: "string + tocSection list"
  lessons :: "nat \<Rightarrow> lessonWorld"

section \<open>The navigator\<close>

definition maxRetry :: int where
  "maxRetry = 6"

text \<open>
  \<^verbatim>\<open>visitVideo\<close> calls itself after a failed run and after a rate-limited page. Each
  call takes the next outcome of \<^verbatim>\<open>visits\<close>; when the outcomes are used up and the
  function has not returned, the result is \<open>None\<close>.
\<close>

fun visitVideo ::
  "attempt list \<Rightarrow> string \<Rightarrow> int \<Rightarrow> int \<Rightarrow> proc \<Rightarrow> (error option \<times> proc) option" where
  "visitVideo [] href backoff count st = None"
| "visitVideo (a # rest) href backoff count st =
     (case a of
        RunFailed err \<Rightarrow>
          if count \<ge> maxRetry
          then Some (Some (NavigationFailed err), emit [Navigate href] st)
          else visitVideo rest href backoff (count + 1)
                 (emit [Navigate href, Log (NavigationRetry err), Sleep backoff] st)
      | Loaded rateLimited hasTranscript \<Rightarrow>
          if rateLimited
          then visitVideo rest href backoff (count + 1)
                 (emit [Navigate href, Log RateLimited, Sleep backoff] st)
          else if \<not> hasTranscript
          then Some (Some (NoTranscript href), emit [Navigate href] st)
          else Some (None, emit [Navigate href] st))"

section \<open>The fetchers\<close>

definition transcriptText :: "VideoEntry \<Rightarrow> string" where
  "transcriptText video =
     ''URL: '' @ Href video @ [CHR 0x0A]
     @ ''Section: '' @ Section video @ [CHR 0x0A]
     @ ''Title: '' @ Title video @ [CHR 0x0A]
     @ ''Index: '' @ Itoa (Index video) @ [CHR 0x0A]
     @ ''Duration: '' @ Duration video @ [CHR 0x0A]
     @ ''Transcript:'' @ [CHR 0x0A] @ Transcript video @ [CHR 0x0A]"

fun Join :: "string list \<Rightarrow> string \<Rightarrow> string" where
  "Join [] sep = []"
| "Join [x] sep = x"
| "Join (x # y # ys) sep = x @ sep @ Join (y # ys) sep"

text \<open>
  A write that fails has written the first \<open>n\<close> bytes of its data.
\<close>

definition downloadTranscript ::
  "stdlib \<Rightarrow> lessonWorld \<Rightarrow> VideoEntry \<Rightarrow> bool \<Rightarrow> proc \<Rightarrow> error option \<times> proc" where
  "downloadTranscript lib w video0 json st =
     (case scrape w of
        Inl err \<Rightarrow> (Some (ScrapeFailed err), st)
      | Inr lines \<Rightarrow>
          (let video = video0\<lparr>Transcript := Join lines [CHR 0x0A]\<rparr>;
               ext = (if json then ''json'' else ''txt'');
               name = filename video @ ''.'' @ ext;
               st1 = emit [Create name] st
           in (case createTranscript w of
                 Some err \<Rightarrow> (Some (CreateFailed name err), st1)
               | None \<Rightarrow>
                   (let st2 = writeFile name [] st1;
                        content = (if json then jsonEncode lib video else transcriptText video)
                    in (case writeTranscript w of
                          Some (n, err) \<Rightarrow>
                            (Some (if json then WriteJSONFailed err else WriteTranscriptFailed err),
                             writeFile name (take n content) st2)
                        | None \<Rightarrow>
                            (None,
                             emit [Log (TranscriptSaved name)] (writeFile name content st2)))))))"

text \<open>The part of \<^verbatim>\<open>downloadVideo\<close> that follows the creation of the file.\<close>

definition fetchVideo ::
  "lessonWorld \<Rightarrow> string \<Rightarrow> string \<Rightarrow> proc \<Rightarrow> error option \<times> proc" where
  "fetchVideo w name videoURL st2 =
     (case newRequest w of
        Some err \<Rightarrow> (Some (RequestFailed err), st2)
      | None \<Rightarrow>
          (let st3 = emit [HttpGet videoURL] st2
           in (case doRequest w of
                 Inl err \<Rightarrow> (Some (DownloadFailed err), st3)
               | Inr resp \<Rightarrow>
                   (if StatusCode resp \<noteq> 200
                    then (Some (BadStatus (Status resp)), st3)
                    else (case copyBody w of
                            Some (n, err) \<Rightarrow>
                              (Some (SaveFailed err), writeFile name (take n (Body resp)) st3)
                          | None \<Rightarrow>
                              (None,
                               emit [Log (VideoSaved name)]
                                 (writeFile name (Body resp) st3)))))))"

definition downloadVideo :: "lessonWorld \<Rightarrow> VideoEntry \<Rightarrow> proc \<Rightarrow> error option \<times> proc" where
  "downloadVideo w video st =
     (case findVideo w of
        Inl err \<Rightarrow> (Some (FindVideoFailed err), st)
      | Inr videoURL \<Rightarrow>
          (if videoURL = [] then (Some EmptyVideoURL, st)
           else
             (let name = filename video @ ''.mp4'';
                  st1 = emit [Create name] st
              in (case createVideo w of
                    Some err \<Rightarrow> (Some (CreateFailed name err), st1)
                  | None \<Rightarrow> fetchVideo w name videoURL (writeFile name [] st1)))))"

section \<open>The extractor\<close>

text \<open>
  The loop of \<^verbatim>\<open>parseCourseVideos\<close> over the decoded entries: parse the link, clear
  \<^verbatim>\<open>RawQuery\<close>, store the re-serialized link and the file name. The first link that
  does not parse ends the function with an error and no entries.
\<close>

fun normalizeVideos :: "stdlib \<Rightarrow> VideoEntry list \<Rightarrow> error + VideoEntry list" where
  "normalizeVideos lib [] = Inr []"
| "normalizeVideos lib (v # vs) =
     (case urlParse lib (Href v) of
        Inl err \<Rightarrow> Inl (BadURL err)
      | Inr u \<Rightarrow>
          (case normalizeVideos lib vs of
             Inl e \<Rightarrow> Inl e
           | Inr vs' \<Rightarrow>
               Inr (v\<lparr>Href := urlString lib (u\<lparr>RawQuery := []\<rparr>),
                       filename := outputStem v\<rparr> # vs')))"

definition parseCourseVideos ::
  "stdlib \<Rightarrow> world \<Rightarrow> string \<Rightarrow> proc \<Rightarrow> (error + VideoEntry list) \<times> proc" where
  "parseCourseVideos lib w url st =
     (let st1 = emit [Log ParsingCourse, Navigate url] st
      in case coursePage w of
           Inl err \<Rightarrow> (Inl (ChromeError err), st1)
         | Inr page \<Rightarrow>
             (case videoParseJS page of
                Inl exn \<Rightarrow> (Inl (ScriptException exn), st1)
              | Inr videos \<Rightarrow> (normalizeVideos lib videos, st1)))"

definition ssoLogin :: "world \<Rightarrow> string \<Rightarrow> proc \<Rightarrow> error option \<times> proc" where
  "ssoLogin w u st =
     (map_option ChromeError (ssoResult w), emit [Log LoggingIn, Navigate u] st)"

definition countSections :: "VideoEntry list \<Rightarrow> nat" where
  "countSections videos = length (remdups (map Section videos))"

section \<open>The orchestrator\<close>

text \<open>The command-line flags, as \<^verbatim>\<open>main\<close> reads them.\<close>

record flags =
  ssoURL :: string
  courseURL :: string
  dlTranscripts :: bool
  saveJSON :: bool
  dlVideos :: bool
  timeout :: int
  backoff :: int

text \<open>
  \<^verbatim>\<open>newChromeDPCtx\<close> returns the context and one function that cancels the timeout,
  the browser context and the allocator, in this order.
\<close>

definition cancel :: "proc \<Rightarrow> proc" where
  "cancel st = emit [TimeoutCancel, ChromeCancel, AllocCancel] st"

text \<open>
  \<^verbatim>\<open>log.Fatal\<close> writes the line and calls \<^verbatim>\<open>os.Exit(1)\<close>: the process ends there, and
  the deferred calls of \<^verbatim>\<open>main\<close> do not run.
\<close>

definition logFatal :: "error \<Rightarrow> proc \<Rightarrow> nat \<times> proc" where
  "logFatal e st = (1, emit [Log (Fatal e), Exit 1] st)"

text \<open>The body of the loop over the lessons; \<open>i\<close> counts them from 0, \<open>n\<close> is their number.\<close>

fun lessonLoop ::
  "stdlib \<Rightarrow> flags \<Rightarrow> world \<Rightarrow> nat \<Rightarrow> nat \<Rightarrow> VideoEntry list \<Rightarrow> proc \<Rightarrow> proc option" where
  "lessonLoop lib f w n i [] st = Some st"
| "lessonLoop lib f w n i (video # videos) st =
     (let lw = lessons w i;
          st1 = emit [Log (Lesson (i + 1) n (Section video) (Title video))] st
      in case visitVideo (visits lw) (Href video) (backoff f) 0 st1 of
           None \<Rightarrow> None
         | Some (Some err, st2) \<Rightarrow>
             lessonLoop lib f w n (i + 1) videos (emit [Log (VisitFailed err)] st2)
         | Some (None, st2) \<Rightarrow>
             (case (if dlTranscripts f then downloadTranscript lib lw video (saveJSON f) st2
                    else (None, st2)) of
                (Some err, st3) \<Rightarrow>
                  lessonLoop lib f w n (i + 1) videos (emit [Log (Skipping err)] st3)
              | (None, st3) \<Rightarrow>
                  (case (if dlVideos f then downloadVideo lw video st3 else (None, st3)) of
                     (Some err, st4) \<Rightarrow>
                       lessonLoop lib f w n (i + 1) videos (emit [Log (Skipping err)] st4)
                   | (None, st4) \<Rightarrow> lessonLoop lib f w n (i + 1) videos st4)))"

text \<open>
  \<^verbatim>\<open>main\<close> returns the exit status and the final state of the process, or \<open>None\<close>
  when a call of \<^verbatim>\<open>visitVideo\<close> does not return. A normal return of \<^verbatim>\<open>main\<close> runs the
  deferred \<^verbatim>\<open>cancel\<close> and ends the process with status 0.
\<close>

definition main :: "stdlib \<Rightarrow> flags \<Rightarrow> world \<Rightarrow> proc \<Rightarrow> (nat \<times> proc) option" where
  "main lib f w st0 =
     (if \<not> dlVideos f \<and> \<not> dlTranscripts f
      then Some (1, emit [Log NoDownloadRequested, Exit 1] st0)
      else
        (case ssoLogin w (ssoURL f) st0 of
           (Some err, st1) \<Rightarrow> Some (logFatal err st1)
         | (None, st1) \<Rightarrow>
             (case parseCourseVideos lib w (courseURL f) (emit [Log LoggedIn] st1) of
                (Inl err, st3) \<Rightarrow> Some (logFatal err st3)
              | (Inr videos, st3) \<Rightarrow>
                  (case lessonLoop lib f w (length videos) 0 videos
                          (emit [Log (Found (length videos) (countSections videos))] st3) of
                     None \<Rightarrow> None
                   | Some st5 \<Rightarrow>
                       Some (0, emit [Exit 0] (cancel (emit [Log AllSaved] st5)))))))"

section \<open>Notions of the statements\<close>

text \<open>
  A list of encodings none of which is empty or holds a character of the class
  \<^verbatim>\<open>[a-zA-Z0-9._-]\<close>; the white space of Go and of ECMAScript are such lists.
\<close>

definition invalidEncs :: "string list \<Rightarrow> bool" where
  "invalidEncs encs = list_all (\<lambda>e. e \<noteq> [] \<and> list_all (\<lambda>c. \<not> validChar c) e) encs"

definition isDigit :: "char \<Rightarrow> bool" where
  "isDigit c = (48 \<le> (of_char c :: nat) \<and> (of_char c :: nat) \<le> 57)"

text \<open>Reading a decimal numeral back, the inverse of \<^const>\<open>fmt02d\<close>.\<close>

definition digitsVal :: "string \<Rightarrow> nat" where
  "digitsVal s = foldl (\<lambda>a c. 10 * a + (of_char c - 48)) 0 s"

definition readInt :: "string \<Rightarrow> int" where
  "readInt s =
     (case s of
        [] \<Rightarrow> 0
      | c # cs \<Rightarrow> if c = CHR ''-'' then - int (digitsVal cs) else int (digitsVal s))"

text \<open>
  The two outer parts of a file name: what the sanitizer makes of a text that stands at
  the front of its argument (white space is trimmed at the front only) and at the end
  (white space is trimmed at the end only).
\<close>

definition sanitizeFront :: "string \<Rightarrow> string" where
  "sanitizeFront s =
     ReplaceAllString (trimLeftEnc goSpace (ReplaceAll s ''| LinkedIn Learning'' [])) ''_''"

definition sanitizeBack :: "string \<Rightarrow> string" where
  "sanitizeBack s =
     ReplaceAllString (trimRightEnc goSpace (ReplaceAll s ''| LinkedIn Learning'' [])) ''_''"

text \<open>
  A course is well formed when no two of its entries share the section title and the
  index. In \<open>noSectionPrefix\<close>, no section title, as it is sanitized at the front of the
  file name, followed by a dot is a prefix of the sanitized section title of an entry.
\<close>

definition wellFormed :: "VideoEntry list \<Rightarrow> bool" where
  "wellFormed vs = distinct (map (\<lambda>v. (Section v, Index v)) vs)"

definition noSectionPrefix :: "VideoEntry list \<Rightarrow> bool" where
  "noSectionPrefix vs =
     list_all (\<lambda>a. list_all (\<lambda>b.
        \<not> prefix (sanitizeFront (Section a) @ ''.'') (sanitizeFront (Section b))) vs) vs"

text \<open>
  An instance of the library for the examples: a link is read as a path and a query,
  split at the first question mark; a link that holds an ASCII control character or a
  percent sign that two hexadecimal digits do not follow does not parse, as with
  \<^verbatim>\<open>url.Parse\<close>.
\<close>

definition isHex :: "char \<Rightarrow> bool" where
  "isHex c =
     (let n = (of_char c :: nat)
      in (48 \<le> n \<and> n \<le> 57) \<or> (65 \<le> n \<and> n \<le> 70) \<or> (97 \<le> n \<and> n \<le> 102))"

fun badEscape :: "string \<Rightarrow> bool" where
  "badEscape [] = False"
| "badEscape (c # cs) =
     (if c = CHR ''%''
      then (case cs of
              a # b # rest \<Rightarrow> (if isHex a \<and> isHex b then badEscape rest else True)
            | _ \<Rightarrow> True)
      else badEscape cs)"

definition exampleLib :: stdlib where
  "exampleLib =
     \<lparr>urlParse = (\<lambda>s.
        if list_ex (\<lambda>c. (of_char c :: nat) < 32 \<or> (of_char c :: nat) = 127) s
        then Inl ''net/url: invalid control character in URL''
        else if badEscape s
        then Inl ''invalid URL escape''
        else Inr \<lparr>Scheme = [], Opaque = [], User = None, Host = [],
                  Path = takeWhile (\<lambda>c. c \<noteq> CHR ''?'') s, RawPath = [],
                  OmitHost = False, ForceQuery = False,
                  RawQuery = drop 1 (dropWhile (\<lambda>c. c \<noteq> CHR ''?'') s),
                  Fragment = [], RawFragment = []\<rparr>),
      urlString = (\<lambda>u. Path u @ (if RawQuery u = [] then [] else CHR ''?'' # RawQuery u)),
      jsonEncode = (\<lambda>v. Href v)\<rparr>"

text \<open>
  The links of the items of a section that have one, in document order, and the pages
  on which the script reads a title for every item.
\<close>

definition keptLinks :: "tocSection \<Rightarrow> string list" where
  "keptLinks sec = List.map_filter linkHref (tocItems sec)"

definition titleReadable :: "tocItem \<Rightarrow> bool" where
  "titleReadable video = (case itemTitle video of Inl exn \<Rightarrow> False | Inr title \<Rightarrow> True)"

definition pageReadable :: "tocSection list \<Rightarrow> bool" where
  "pageReadable page = list_all (\<lambda>sec. list_all titleReadable (tocItems sec)) page"

text \<open>
  Two pages for the examples. The first has two sections of two items each, one item
  without a link. In the second, the item without a link has no title element either.
\<close>

definition examplePage :: "tocSection list" where
  "examplePage =
     [\<lparr>toggleTitle = Some ''Introduction'',
       tocItems =
         [\<lparr>linkHref = Some ''https://www.linkedin.com/learning/go/welcome?u=2'',
           titleChildNodes = Some [OtherNode, TextNode '' Welcome ''],
           spanTexts = [''Welcome'', ''1m 20s video'']\<rparr>,
          \<lparr>linkHref = Some ''https://www.linkedin.com/learning/go/setup?u=2'',
           titleChildNodes = Some [TextNode ''Setup''],
           spanTexts = [''2m 5s video'']\<rparr>]\<rparr>,
      \<lparr>toggleTitle = Some ''1. Basics'',
       tocItems =
         [\<lparr>linkHref = None,
           titleChildNodes = Some [TextNode ''Chapter Quiz''],
           spanTexts = [''3 questions'']\<rparr>,
          \<lparr>linkHref = Some ''https://www.linkedin.com/learning/go/types?u=2'',
           titleChildNodes = Some [TextNode ''Types''],
           spanTexts = [''4m video'']\<rparr>]\<rparr>]"

definition brokenPage :: "tocSection list" where
  "brokenPage =
     [\<lparr>toggleTitle = Some ''Introduction'',
       tocItems =
         [\<lparr>linkHref = Some ''https://www.linkedin.com/learning/go/welcome?u=2'',
           titleChildNodes = Some [TextNode ''Welcome''],
           spanTexts = [''1m 20s video'']\<rparr>,
          \<lparr>linkHref = None, titleChildNodes = None, spanTexts = []\<rparr>]\<rparr>]"

text \<open>
  Readings of a trace: the numbers of the lessons whose progress line was logged, and
  the addresses the browser was sent to.
\<close>

definition lessonLines :: "event list \<Rightarrow> nat list" where
  "lessonLines tr =
     List.map_filter (\<lambda>e. case e of Log (Lesson i n s t) \<Rightarrow> Some i | _ \<Rightarrow> None) tr"

definition navigated :: "event list \<Rightarrow> string list" where
  "navigated tr = List.map_filter (\<lambda>e. case e of Navigate u \<Rightarrow> Some u | _ \<Rightarrow> None) tr"

definition sleeps :: "event list \<Rightarrow> int list" where
  "sleeps tr = List.map_filter (\<lambda>e. case e of Sleep d \<Rightarrow> Some d | _ \<Rightarrow> None) tr"

definition teardowns :: "event list \<Rightarrow> event list" where
  "teardowns tr = filter (\<lambda>e. e = TimeoutCancel \<or> e = ChromeCancel \<or> e = AllocCancel) tr"

text \<open>
  The events of one lesson after its progress line: no progress line among them, and
  no navigation but to the link of the lesson.
\<close>

definition lessonEvents :: "string \<Rightarrow> event list \<Rightarrow> bool" where
  "lessonEvents href evs = (lessonLines evs = [] \<and> set (navigated evs) \<subseteq> {href})"

definition emptyProc :: proc where
  "emptyProc = \<lparr>trace = [], files = Map.empty\<rparr>"

text \<open>What the extractor returns in a world; it depends on no state of the process.\<close>

definition extraction :: "stdlib \<Rightarrow> world \<Rightarrow> error + VideoEntry list" where
  "extraction lib w = fst (parseCourseVideos lib w [] emptyProc)"

text \<open>The navigator returns on the outcomes that the world holds for lesson \<open>i\<close>.\<close>

definition navigatorReturns :: "world \<Rightarrow> nat \<Rightarrow> bool" where
  "navigatorReturns w i = (visitVideo (visits (lessons w i)) [] 0 0 emptyProc \<noteq> None)"

text \<open>The link that the extractor stores for a link that parses.\<close>

definition strippedLink :: "stdlib \<Rightarrow> string \<Rightarrow> string" where
  "strippedLink lib href =
     (case urlParse lib href of
        Inl err \<Rightarrow> []
      | Inr u \<Rightarrow> urlString lib (u\<lparr>RawQuery := []\<rparr>))"

definition parses :: "stdlib \<Rightarrow> VideoEntry \<Rightarrow> bool" where
  "parses lib v = (case urlParse lib (Href v) of Inl err \<Rightarrow> False | Inr u \<Rightarrow> True)"

text \<open>
  The errors of \<^verbatim>\<open>downloadVideo\<close> between the creation of the file and the copy of
  the body.
\<close>

definition requestError :: "error \<Rightarrow> bool" where
  "requestError e =
     (case e of
        RequestFailed err \<Rightarrow> True
      | DownloadFailed err \<Rightarrow> True
      | BadStatus status \<Rightarrow> True
      | _ \<Rightarrow> False)"

text \<open>
  A run for the examples, on the first example page. Lesson 0 is rate limited once and
  then fetched; lesson 1 has no transcript; the video of lesson 2 is refused by the
  server.
\<close>

definition exampleFlags :: flags where
  "exampleFlags =
     \<lparr>ssoURL = ''https://www.linkedin.com/checkpoint/enterprise/login/1'',
      courseURL = ''https://www.linkedin.com/learning/go'',
      dlTranscripts = True, saveJSON = False, dlVideos = True,
      timeout = 3600000000000, backoff = 60000000000\<rparr>"

definition exampleLesson :: "nat \<Rightarrow> lessonWorld" where
  "exampleLesson i =
     \<lparr>visits = (if i = 0 then [Loaded True False, Loaded False True]
                else if i = 1 then [Loaded False False]
                else [Loaded False True]),
      scrape = Inr [''Hello.'', ''Welcome to the course.''],
      createTranscript = None,
      writeTranscript = None,
      findVideo = Inr ''https://media.example/v.mp4'',
      createVideo = None,
      newRequest = None,
      doRequest = (if i = 2
                   then Inr \<lparr>StatusCode = 403, Status = ''403 Forbidden'', Body = ''denied''\<rparr>
                   else Inr \<lparr>StatusCode = 200, Status = ''200 OK'', Body = ''mp4-bytes''\<rparr>),
      copyBody = None\<rparr>"

definition exampleWorld :: world where
  "exampleWorld =
     \<lparr>ssoResult = None, coursePage = Inr examplePage, lessons = exampleLesson\<rparr>"

text \<open>A page with a link that does not parse, and the world that shows it.\<close>

definition badLinkPage :: "tocSection list" where
  "badLinkPage =
     [\<lparr>toggleTitle = Some ''Introduction'',
       tocItems =
         [\<lparr>linkHref = Some ''https://www.linkedin.com/learning/go/welcome?u=2'',
           titleChildNodes = Some [TextNode ''Welcome''],
           spanTexts = [''1m 20s video'']\<rparr>,
          \<lparr>linkHref = Some ''https://www.linkedin.com/learning/go/100%-go?u=2'',
           titleChildNodes = Some [TextNode ''100% Go''],
           spanTexts = [''2m video'']\<rparr>]\<rparr>]"

definition badLinkWorld :: world where
  "badLinkWorld = exampleWorld\<lparr>coursePage := Inr badLinkPage\<rparr>"

text \<open>
  What the navigator and the two fetchers return for a lesson; the results depend on
  what the world answers, not on the state of the process. \<open>failureLine\<close> is the
  line that the loop of \<^verbatim>\<open>main\<close> owes the log for a lesson: the failed visit, or
  the error of the first requested fetcher that fails, or nothing.
\<close>

definition visitResult :: "world \<Rightarrow> nat \<Rightarrow> string \<Rightarrow> error option option" where
  "visitResult w i href = map_option fst (visitVideo (visits (lessons w i)) href 0 0 emptyProc)"

definition transcriptResult :: "stdlib \<Rightarrow> lessonWorld \<Rightarrow> VideoEntry \<Rightarrow> bool \<Rightarrow> error option" where
  "transcriptResult lib lw video json = fst (downloadTranscript lib lw video json emptyProc)"

definition videoResult :: "lessonWorld \<Rightarrow> VideoEntry \<Rightarrow> error option" where
  "videoResult lw video = fst (downloadVideo lw video emptyProc)"

definition failureLine :: "stdlib \<Rightarrow> flags \<Rightarrow> world \<Rightarrow> nat \<Rightarrow> VideoEntry \<Rightarrow> logLine list" where
  "failureLine lib f w i video =
     (case visitResult w i (Href video) of
        None \<Rightarrow> []
      | Some (Some err) \<Rightarrow> [VisitFailed err]
      | Some None \<Rightarrow>
          (case (if dlTranscripts f
                 then transcriptResult lib (lessons w i) video (saveJSON f) else None) of
             Some err \<Rightarrow> [Skipping err]
           | None \<Rightarrow>
               (case (if dlVideos f then videoResult (lessons w i) video else None) of
                  Some err \<Rightarrow> [Skipping err]
                | None \<Rightarrow> [])))"

text \<open>
  The log that a full traversal owes: for each lesson, from number \<open>i\<close> on, its progress
  line and then its failure line.
\<close>

fun expectedLog ::
  "stdlib \<Rightarrow> flags \<Rightarrow> world \<Rightarrow> nat \<Rightarrow> nat \<Rightarrow> VideoEntry list \<Rightarrow> logLine list" where
  "expectedLog lib f w n i [] = []"
| "expectedLog lib f w n i (video # videos) =
     Lesson (i + 1) n (Section video) (Title video) # failureLine lib f w i video
     @ expectedLog lib f w n (i + 1) videos"

text \<open>The progress lines and the failure lines of a trace, in order.\<close>

definition lessonLog :: "event list \<Rightarrow> logLine list" where
  "lessonLog tr =
     List.map_filter
       (\<lambda>e. case e of
               Log (Lesson i n s t) \<Rightarrow> Some (Lesson i n s t)
             | Log (VisitFailed err) \<Rightarrow> Some (VisitFailed err)
             | Log (Skipping err) \<Rightarrow> Some (Skipping err)
             | _ \<Rightarrow> None) tr"

section \<open>Properties of the string functions\<close>

subsection \<open>White space\<close>

lemma goSpace_invalid: "invalidEncs goSpace"
  by (simp add: invalidEncs_def goSpace_def commonSpace_def validChar_def)

lemma invalidEncs_mem:
  "invalidEncs encs \<Longrightarrow> e \<in> set encs \<Longrightarrow> e \<noteq> [] \<and> (\<forall>c\<in>set e. \<not> validChar c)"
  by (auto simp: invalidEncs_def list_all_iff)

lemma prefix_append_valid:
  assumes "\<forall>d\<in>set e. \<not> validChar d" and "validChar c"
  shows "prefix e (x @ c # t) \<longleftrightarrow> prefix e x"
proof
  assume "prefix e (x @ c # t)"
  then have "prefix e x \<or> (\<exists>us. e = x @ us \<and> prefix us (c # t))"
    by (simp add: prefix_append)
  then show "prefix e x"
  proof
    assume "\<exists>us. e = x @ us \<and> prefix us (c # t)"
    then obtain us where us: "e = x @ us" "prefix us (c # t)" by blast
    show ?thesis
    proof (cases us)
      case Nil
      with us show ?thesis by simp
    next
      case (Cons u us')
      with us have "c \<in> set e" by simp
      with assms show ?thesis by blast
    qed
  qed
qed (auto simp: prefix_def)

lemma suffix_append_valid:
  assumes "\<forall>d\<in>set e. \<not> validChar d" and "validChar c"
  shows "suffix e (p @ c # y) \<longleftrightarrow> suffix e y"
proof -
  have "suffix e (p @ c # y) \<longleftrightarrow> prefix (rev e) (rev y @ c # rev p)"
    by (simp add: suffix_to_prefix)
  also have "\<dots> \<longleftrightarrow> prefix (rev e) (rev y)"
    using assms by (intro prefix_append_valid) auto
  finally show ?thesis by (simp add: suffix_to_prefix)
qed

lemma leadingEnc_append_valid:
  assumes "invalidEncs encs" and "validChar c"
  shows "leadingEnc encs (x @ c # t) = leadingEnc encs x"
  unfolding leadingEnc_def
  by (rule find_cong) (use assms invalidEncs_mem prefix_append_valid in auto)

lemma trailingEnc_append_valid:
  assumes "invalidEncs encs" and "validChar c"
  shows "trailingEnc encs (p @ c # y) = trailingEnc encs y"
  unfolding trailingEnc_def
  by (rule find_cong) (use assms invalidEncs_mem suffix_append_valid in auto)

lemma leadingEnc_Some:
  "leadingEnc encs s = Some e \<Longrightarrow> e \<in> set encs \<and> prefix e s"
  by (auto simp: leadingEnc_def find_Some_iff)

lemma trailingEnc_Some:
  "trailingEnc encs s = Some e \<Longrightarrow> e \<in> set encs \<and> suffix e s"
  by (auto simp: trailingEnc_def find_Some_iff)

lemma trimLeftEnc_append_valid:
  assumes "invalidEncs encs" and "validChar c"
  shows "trimLeftEnc encs (x @ c # t) = trimLeftEnc encs x @ c # t"
  using assms
proof (induction encs x rule: trimLeftEnc.induct)
  case (1 encs s)
  show ?case
  proof (cases "leadingEnc encs s")
    case None
    with 1 show ?thesis
      by (subst (1 2) trimLeftEnc.simps) (simp add: leadingEnc_append_valid)
  next
    case (Some e)
    then have e: "e \<noteq> []" "prefix e s"
      using leadingEnc_Some [OF Some] invalidEncs_mem [OF "1.prems"(1)] by auto
    then have "drop (length e) (s @ c # t) = drop (length e) s @ c # t"
      by (auto simp: prefix_def)
    with 1 Some e show ?thesis
      by (subst (1 2) trimLeftEnc.simps) (simp add: leadingEnc_append_valid)
  qed
qed

lemma trimRightEnc_append_valid:
  assumes "invalidEncs encs" and "validChar c"
  shows "trimRightEnc encs (p @ c # y) = p @ c # trimRightEnc encs y"
  using assms
proof (induction encs y rule: trimRightEnc.induct)
  case (1 encs s)
  show ?case
  proof (cases "trailingEnc encs s")
    case None
    with 1 show ?thesis
      by (subst (1 2) trimRightEnc.simps) (simp add: trailingEnc_append_valid)
  next
    case (Some e)
    then have e: "e \<noteq> []" "suffix e s"
      using trailingEnc_Some [OF Some] invalidEncs_mem [OF "1.prems"(1)] by auto
    then have "take (length (p @ c # s) - length e) (p @ c # s) = p @ c # take (length s - length e) s"
      by (auto simp: suffix_def)
    with 1 Some e show ?thesis
      by (subst (1 2) trimRightEnc.simps) (simp add: trailingEnc_append_valid)
  qed
qed

lemma trimLeftEnc_None: "leadingEnc encs s = None \<Longrightarrow> trimLeftEnc encs s = s"
  by (subst trimLeftEnc.simps) simp

lemma trimRightEnc_None: "trailingEnc encs s = None \<Longrightarrow> trimRightEnc encs s = s"
  by (subst trimRightEnc.simps) simp

lemma leadingEnc_valid:
  assumes "invalidEncs encs" and "list_all validChar s"
  shows "leadingEnc encs s = None"
proof (cases "leadingEnc encs s")
  case (Some e)
  then have e: "e \<in> set encs" "prefix e s"
    using leadingEnc_Some by blast+
  from invalidEncs_mem [OF assms(1) e(1)]
  obtain c where "c \<in> set e" "\<not> validChar c"
    by (cases e) auto
  with e(2) assms(2) show ?thesis
    by (auto simp: prefix_def list_all_iff)
qed simp

lemma trailingEnc_valid:
  assumes "invalidEncs encs" and "list_all validChar s"
  shows "trailingEnc encs s = None"
proof (cases "trailingEnc encs s")
  case (Some e)
  then have e: "e \<in> set encs" "suffix e s"
    using trailingEnc_Some by blast+
  from invalidEncs_mem [OF assms(1) e(1)]
  obtain c where "c \<in> set e" "\<not> validChar c"
    by (cases e) auto
  with e(2) assms(2) show ?thesis
    by (auto simp: suffix_def list_all_iff)
qed simp

lemma TrimSpace_valid: "list_all validChar s \<Longrightarrow> TrimSpace s = s"
  by (simp add: TrimSpace_def trimLeftEnc_None trimRightEnc_None
      leadingEnc_valid trailingEnc_valid goSpace_invalid)

subsection \<open>Replacement\<close>

lemma ReplaceAll_absent:
  "old \<noteq> [] \<Longrightarrow> hd old \<notin> set s \<Longrightarrow> ReplaceAll s old new = s"
proof (induction s)
  case (Cons c cs)
  then have "\<not> prefix old (c # cs)"
    by (cases old) auto
  with Cons show ?case by simp
qed simp

lemma prefix_append_sep:
  assumes "c \<notin> set e"
  shows "prefix e (x @ c # t) \<longleftrightarrow> prefix e x"
proof
  assume "prefix e (x @ c # t)"
  then have "prefix e x \<or> (\<exists>us. e = x @ us \<and> prefix us (c # t))"
    by (simp add: prefix_append)
  then show "prefix e x"
  proof
    assume "\<exists>us. e = x @ us \<and> prefix us (c # t)"
    then obtain us where us: "e = x @ us" "prefix us (c # t)" by blast
    show ?thesis
    proof (cases us)
      case Nil
      with us show ?thesis by simp
    next
      case (Cons u us')
      with us have "c \<in> set e" by simp
      with assms show ?thesis by blast
    qed
  qed
qed (auto simp: prefix_def)

lemma ReplaceAll_sep:
  assumes "c \<notin> set old"
  shows "ReplaceAll (a @ c # t) old new = ReplaceAll a old new @ c # ReplaceAll t old new"
  using assms
proof (induction a old new rule: ReplaceAll.induct)
  case (1 old new)
  have "\<not> prefix old (c # t) \<or> old = []"
    by (cases old) (use 1 in auto)
  then show ?case by auto
next
  case (2 d ds old new)
  have pre: "prefix old (d # ds @ c # t) \<longleftrightarrow> prefix old (d # ds)"
    using prefix_append_sep [OF "2.prems", of "d # ds" t] by simp
  show ?case
  proof (cases "old \<noteq> [] \<and> prefix old (d # ds)")
    case True
    then have "length old \<le> length (d # ds)"
      by (auto dest: prefix_length_le)
    then have "drop (length old) (d # ds @ c # t) = drop (length old) (d # ds) @ c # t"
      using drop_append [of "length old" "d # ds" "c # t"] by simp
    with True pre 2(1) "2.prems" show ?thesis by simp
  next
    case False
    with pre 2(2) "2.prems" show ?thesis by auto
  qed
qed

lemma ReplaceAllString_valid: "list_all validChar s \<Longrightarrow> ReplaceAllString s repl = s"
  by (induction s) auto

lemma ReplaceAllString_output:
  "list_all validChar repl \<Longrightarrow> list_all validChar (ReplaceAllString s repl)"
  by (induction s repl rule: ReplaceAllString.induct) auto

lemma dropWhile_all: "\<forall>x\<in>set xs. P x \<Longrightarrow> dropWhile P xs = []"
  by simp

lemma ReplaceAllString_sep:
  assumes "validChar c"
  shows "ReplaceAllString (a @ c # t) repl = ReplaceAllString a repl @ c # ReplaceAllString t repl"
  using assms
proof (induction a repl rule: ReplaceAllString.induct)
  case (2 d ds repl)
  then show ?case
    by (auto simp: dropWhile_append dropWhile_all)
qed simp

subsection \<open>Formatting\<close>

lemma natDec_nonempty: "natDec n \<noteq> []"
  by (subst natDec.simps) simp

lemma digit_isDigit: "(k::nat) < 10 \<Longrightarrow> isDigit (char_of (48 + k))"
proof -
  assume "k < 10"
  then have "(48 + k) mod 256 = 48 + k" by simp
  with \<open>k < 10\<close> show ?thesis
    unfolding isDigit_def of_char_of by simp
qed

lemma natDec_digits: "list_all isDigit (natDec n)"
proof (induction n rule: natDec.induct)
  case (1 n)
  show ?case
  proof (cases "n < 10")
    case True
    then show ?thesis
      by (subst natDec.simps) (simp add: digit_isDigit)
  next
    case False
    with 1 show ?thesis
      by (subst natDec.simps) (simp add: digit_isDigit)
  qed
qed


lemma isDigit_valid: "isDigit c \<Longrightarrow> validChar c"
  by (simp add: isDigit_def validChar_def)

lemma isDigit_zero: "isDigit CHR ''0''"
  by (simp add: isDigit_def)

lemma fmt02d_chars: "c \<in> set (fmt02d i) \<Longrightarrow> isDigit c \<or> c = CHR ''-''"
proof -
  have d: "c \<in> set (natDec n) \<Longrightarrow> isDigit c" for n
    using natDec_digits [of n] by (simp add: list_all_iff)
  assume "c \<in> set (fmt02d i)"
  then show ?thesis
    using d isDigit_zero by (auto simp: fmt02d_def split: if_splits)
qed

lemma fmt02d_valid: "list_all validChar (fmt02d i)"
proof -
  have "validChar CHR ''-''" by (simp add: validChar_def)
  then show ?thesis
    using fmt02d_chars [of _ i] isDigit_valid by (auto simp: list_all_iff)
qed

lemma fmt02d_no_dot: "CHR ''.'' \<notin> set (fmt02d i)"
  using fmt02d_chars [of "CHR ''.''" i] by (auto simp: isDigit_def)

lemma fmt02d_no_bar: "CHR ''|'' \<notin> set (fmt02d i)"
  using fmt02d_chars [of "CHR ''|''" i] by (auto simp: isDigit_def)

lemma digitsVal_snoc: "digitsVal (s @ [c]) = 10 * digitsVal s + (of_char c - 48)"
  by (simp add: digitsVal_def)

lemma digitsVal_digit: "(k::nat) < 10 \<Longrightarrow> (of_char (char_of (48 + k)) :: nat) - 48 = k"
proof -
  assume "k < 10"
  then have "(48 + k) mod 256 = 48 + k" by simp
  then show ?thesis unfolding of_char_of by simp
qed

lemma digitsVal_natDec: "digitsVal (natDec n) = n"
proof (induction n rule: natDec.induct)
  case (1 n)
  show ?case
  proof (cases "n < 10")
    case True
    then have "digitsVal [char_of (48 + n)] = n"
      using digitsVal_digit [of n] by (simp add: digitsVal_def)
    with True show ?thesis
      by (subst natDec.simps) simp
  next
    case False
    with 1 have "digitsVal (natDec (n div 10)) = n div 10" by simp
    moreover have "(of_char (char_of (48 + n mod 10)) :: nat) - 48 = n mod 10"
      by (rule digitsVal_digit) simp
    ultimately have "digitsVal (natDec (n div 10) @ [char_of (48 + n mod 10)]) = n"
      unfolding digitsVal_snoc by simp
    with False show ?thesis
      by (subst natDec.simps) simp
  qed
qed

lemma natDec_hd: "\<exists>c cs. natDec n = c # cs \<and> c \<noteq> CHR ''-''"
proof (cases "natDec n")
  case Nil
  then show ?thesis using natDec_nonempty by blast
next
  case (Cons c cs)
  then have "isDigit c" using natDec_digits [of n] by simp
  then have "c \<noteq> CHR ''-''" by (auto simp: isDigit_def)
  with Cons show ?thesis by blast
qed

lemma readInt_natDec: "readInt (natDec n) = int n"
proof -
  obtain c cs where "natDec n = c # cs" "c \<noteq> CHR ''-''"
    using natDec_hd by blast
  then have "readInt (natDec n) = int (digitsVal (natDec n))"
    by (simp add: readInt_def)
  then show ?thesis by (simp only: digitsVal_natDec)
qed

lemma digitsVal_zero: "digitsVal (CHR ''0'' # s) = digitsVal s"
  by (simp add: digitsVal_def)

lemma readInt_fmt02d: "readInt (fmt02d i) = i"
proof -
  consider "i < 0" | "0 \<le> i" "i < 10" | "10 \<le> i" by linarith
  then show ?thesis
  proof cases
    case 1
    then have "fmt02d i = CHR ''-'' # natDec (nat (- i))"
      by (simp add: fmt02d_def)
    then have "readInt (fmt02d i) = - int (digitsVal (natDec (nat (- i))))"
      by (simp add: readInt_def)
    with 1 show ?thesis by (simp add: digitsVal_natDec)
  next
    case 2
    then have "fmt02d i = CHR ''0'' # natDec (nat i)"
      by (simp add: fmt02d_def)
    then have "readInt (fmt02d i) = int (digitsVal (CHR ''0'' # natDec (nat i)))"
      by (simp add: readInt_def)
    with 2 show ?thesis by (simp add: digitsVal_zero digitsVal_natDec)
  next
    case 3
    then have "fmt02d i = natDec (nat i)"
      by (simp add: fmt02d_def)
    with 3 show ?thesis by (simp add: readInt_natDec)
  qed
qed

lemma fmt02d_inj: "fmt02d i = fmt02d j \<Longrightarrow> i = j"
  by (metis readInt_fmt02d)

section \<open>Properties of the sanitizer\<close>

lemma sanitizeFileName_output: "list_all validChar (sanitizeFileName s)"
  by (simp add: sanitizeFileName_def ReplaceAllString_output validChar_def)

lemma bar_invalid: "\<not> validChar CHR ''|''"
  by (simp add: validChar_def)

lemma ReplaceAll_valid:
  assumes "list_all validChar s"
  shows "ReplaceAll s ''| LinkedIn Learning'' [] = s"
proof -
  from assms bar_invalid have "CHR ''|'' \<notin> set s" by (auto simp: list_all_iff)
  then show ?thesis by (simp add: ReplaceAll_absent)
qed

lemma sanitizeFileName_valid: "list_all validChar s \<Longrightarrow> sanitizeFileName s = s"
  by (simp add: sanitizeFileName_def ReplaceAll_valid TrimSpace_valid ReplaceAllString_valid)

lemma dot_valid: "validChar CHR ''.''"
  by (simp add: validChar_def)

lemma sanitizeFileName_parts:
  assumes "list_all validChar d" and "CHR ''|'' \<notin> set d"
  shows "sanitizeFileName (s @ ''.'' @ d @ ''.'' @ t)
         = sanitizeFront s @ ''.'' @ d @ ''.'' @ sanitizeBack t"
proof -
  let ?old = "''| LinkedIn Learning''"
  let ?s1 = "ReplaceAll s ?old []" and ?t1 = "ReplaceAll t ?old []"
  have dot: "CHR ''.'' \<notin> set ?old" by simp
  have d1: "ReplaceAll d ?old [] = d"
    using assms(2) by (simp add: ReplaceAll_absent)
  have "ReplaceAll (s @ CHR ''.'' # d @ CHR ''.'' # t) ?old []
        = ?s1 @ CHR ''.'' # ReplaceAll (d @ CHR ''.'' # t) ?old []"
    by (rule ReplaceAll_sep [OF dot])
  also have "ReplaceAll (d @ CHR ''.'' # t) ?old [] = d @ CHR ''.'' # ?t1"
    by (simp only: ReplaceAll_sep [OF dot] d1)
  finally have r1: "ReplaceAll (s @ CHR ''.'' # d @ CHR ''.'' # t) ?old []
        = ?s1 @ CHR ''.'' # d @ CHR ''.'' # ?t1" .
  have "trimLeftEnc goSpace (?s1 @ CHR ''.'' # d @ CHR ''.'' # ?t1)
        = trimLeftEnc goSpace ?s1 @ CHR ''.'' # d @ CHR ''.'' # ?t1"
    by (rule trimLeftEnc_append_valid [OF goSpace_invalid dot_valid])
  moreover have "trimRightEnc goSpace ((trimLeftEnc goSpace ?s1 @ CHR ''.'' # d) @ CHR ''.'' # ?t1)
        = (trimLeftEnc goSpace ?s1 @ CHR ''.'' # d) @ CHR ''.'' # trimRightEnc goSpace ?t1"
    by (rule trimRightEnc_append_valid [OF goSpace_invalid dot_valid])
  ultimately have r2: "TrimSpace (?s1 @ CHR ''.'' # d @ CHR ''.'' # ?t1)
        = trimLeftEnc goSpace ?s1 @ CHR ''.'' # d @ CHR ''.'' # trimRightEnc goSpace ?t1"
    by (simp add: TrimSpace_def)
  have "ReplaceAllString (trimLeftEnc goSpace ?s1 @ CHR ''.'' # d @ CHR ''.'' # trimRightEnc goSpace ?t1) ''_''
        = sanitizeFront s @ CHR ''.'' # ReplaceAllString (d @ CHR ''.'' # trimRightEnc goSpace ?t1) ''_''"
    unfolding sanitizeFront_def by (rule ReplaceAllString_sep [OF dot_valid])
  also have "ReplaceAllString (d @ CHR ''.'' # trimRightEnc goSpace ?t1) ''_''
        = d @ CHR ''.'' # sanitizeBack t"
    unfolding sanitizeBack_def
    by (simp only: ReplaceAllString_sep [OF dot_valid] ReplaceAllString_valid [OF assms(1)])
  finally have r3: "ReplaceAllString (trimLeftEnc goSpace ?s1 @ CHR ''.'' # d @ CHR ''.'' # trimRightEnc goSpace ?t1) ''_''
        = sanitizeFront s @ CHR ''.'' # d @ CHR ''.'' # sanitizeBack t" .
  show ?thesis
    by (simp add: sanitizeFileName_def r1 r2 r3)
qed

lemma outputStem_parts:
  "outputStem v
   = sanitizeFront (Section v) @ ''.'' @ fmt02d (Index v) @ ''.'' @ sanitizeBack (Title v)"
  unfolding outputStem_def
  by (rule sanitizeFileName_parts [OF fmt02d_valid fmt02d_no_bar])

lemma trimLeftEnc_suffix: "suffix (trimLeftEnc encs s) s"
proof (induction encs s rule: trimLeftEnc.induct)
  case (1 encs s)
  show ?case
  proof (cases "leadingEnc encs s")
    case None
    then show ?thesis by (simp add: trimLeftEnc_None)
  next
    case (Some e)
    show ?thesis
    proof (cases "e = []")
      case True
      with Some show ?thesis by (subst trimLeftEnc.simps) simp
    next
      case False
      with 1 Some have "suffix (trimLeftEnc encs (drop (length e) s)) (drop (length e) s)"
        by simp
      then have "suffix (trimLeftEnc encs (drop (length e) s)) s"
        using suffix_drop suffix_order.trans by blast
      with Some False show ?thesis by (subst trimLeftEnc.simps) simp
    qed
  qed
qed

lemma trailingEnc_suffix:
  assumes "trailingEnc encs s = None" and "suffix y s"
  shows "trailingEnc encs y = None"
  using assms unfolding trailingEnc_def find_None_iff
  by (meson suffix_order.trans)

lemma sanitizeFront_eq:
  assumes "trailingEnc goSpace (ReplaceAll s ''| LinkedIn Learning'' []) = None"
  shows "sanitizeFront s = sanitizeFileName s"
proof -
  let ?s1 = "ReplaceAll s ''| LinkedIn Learning'' []"
  have "trailingEnc goSpace (trimLeftEnc goSpace ?s1) = None"
    using assms trimLeftEnc_suffix by (rule trailingEnc_suffix)
  then show ?thesis
    by (simp add: sanitizeFront_def sanitizeFileName_def TrimSpace_def trimRightEnc_None)
qed

lemma sanitizeBack_eq:
  assumes "leadingEnc goSpace (ReplaceAll s ''| LinkedIn Learning'' []) = None"
  shows "sanitizeBack s = sanitizeFileName s"
  using assms
  by (simp add: sanitizeBack_def sanitizeFileName_def TrimSpace_def trimLeftEnc_None)

lemma dotted_prefix_eq:
  assumes "x @ CHR ''.'' # r = y @ CHR ''.'' # s"
    and "\<not> prefix (x @ ''.'') y" and "\<not> prefix (y @ ''.'') x"
  shows "x = y \<and> r = s"
proof -
  from assms(1) obtain us where
    "(x = y @ us \<and> us @ CHR ''.'' # r = CHR ''.'' # s)
     \<or> (x @ us = y \<and> CHR ''.'' # r = us @ CHR ''.'' # s)"
    unfolding append_eq_append_conv2 by blast
  then show ?thesis
  proof
    assume h: "x = y @ us \<and> us @ CHR ''.'' # r = CHR ''.'' # s"
    show ?thesis
    proof (cases us)
      case Nil
      with h show ?thesis by simp
    next
      case (Cons u us')
      with h have "x = (y @ ''.'') @ us'" by simp
      then have "prefix (y @ ''.'') x" by (rule prefixI)
      with assms(3) show ?thesis by (rule notE)
    qed
  next
    assume h: "x @ us = y \<and> CHR ''.'' # r = us @ CHR ''.'' # s"
    show ?thesis
    proof (cases us)
      case Nil
      with h show ?thesis by simp
    next
      case (Cons u us')
      with h have "y = (x @ ''.'') @ us'" by auto
      then have "prefix (x @ ''.'') y" by (rule prefixI)
      with assms(2) show ?thesis by (rule notE)
    qed
  qed
qed

lemma dotted_index_eq:
  assumes "d @ CHR ''.'' # r = d' @ CHR ''.'' # s"
    and "CHR ''.'' \<notin> set d" and "CHR ''.'' \<notin> set d'"
  shows "d = d'"
proof -
  have a: "\<And>c. c \<in> set d \<Longrightarrow> c \<noteq> CHR ''.''" and b: "\<And>c. c \<in> set d' \<Longrightarrow> c \<noteq> CHR ''.''"
    using assms(2,3) by blast+
  have "takeWhile (\<lambda>c. c \<noteq> CHR ''.'') (d @ CHR ''.'' # r) = d"
    using a by simp
  moreover have "takeWhile (\<lambda>c. c \<noteq> CHR ''.'') (d' @ CHR ''.'' # s) = d'"
    using b by simp
  ultimately show ?thesis using assms(1) by simp
qed

lemma stem_key:
  assumes "outputStem a = outputStem b"
    and "\<not> prefix (sanitizeFront (Section a) @ ''.'') (sanitizeFront (Section b))"
    and "\<not> prefix (sanitizeFront (Section b) @ ''.'') (sanitizeFront (Section a))"
  shows "sanitizeFront (Section a) = sanitizeFront (Section b) \<and> Index a = Index b"
proof -
  from assms(1) have "sanitizeFront (Section a)
        @ CHR ''.'' # (fmt02d (Index a) @ CHR ''.'' # sanitizeBack (Title a))
      = sanitizeFront (Section b)
        @ CHR ''.'' # (fmt02d (Index b) @ CHR ''.'' # sanitizeBack (Title b))"
    by (simp add: outputStem_parts)
  from dotted_prefix_eq [OF this assms(2,3)]
  have s: "sanitizeFront (Section a) = sanitizeFront (Section b)"
    and r: "fmt02d (Index a) @ CHR ''.'' # sanitizeBack (Title a)
            = fmt02d (Index b) @ CHR ''.'' # sanitizeBack (Title b)"
    by simp_all
  from dotted_index_eq [OF r fmt02d_no_dot fmt02d_no_dot]
  have "Index a = Index b" by (rule fmt02d_inj)
  with s show ?thesis by simp
qed

lemma stems_distinct:
  assumes "distinct (map (\<lambda>v. (sanitizeFront (Section v), Index v)) vs)"
    and "noSectionPrefix vs"
  shows "distinct (map outputStem vs)"
proof -
  from assms(1) have d: "distinct vs"
    and i: "inj_on (\<lambda>v. (sanitizeFront (Section v), Index v)) (set vs)"
    by (simp_all add: distinct_map)
  have "inj_on outputStem (set vs)"
  proof (rule inj_onI)
    fix a b assume ab: "a \<in> set vs" "b \<in> set vs" "outputStem a = outputStem b"
    with assms(2)
    have "\<not> prefix (sanitizeFront (Section a) @ ''.'') (sanitizeFront (Section b))"
      and "\<not> prefix (sanitizeFront (Section b) @ ''.'') (sanitizeFront (Section a))"
      by (auto simp: noSectionPrefix_def list_all_iff)
    with ab(3) have "sanitizeFront (Section a) = sanitizeFront (Section b) \<and> Index a = Index b"
      by (rule stem_key)
    with i ab show "a = b" by (auto dest: inj_onD)
  qed
  with d show ?thesis by (simp add: distinct_map)
qed

lemma sanitized_pairs_wellFormed:
  assumes "distinct (map (\<lambda>v. (sanitizeFront (Section v), Index v)) vs)"
  shows "wellFormed vs"
proof -
  from assms have d: "distinct vs"
    and i: "inj_on ((\<lambda>(s, i). (sanitizeFront s, i)) \<circ> (\<lambda>v. (Section v, Index v))) (set vs)"
    by (simp_all add: distinct_map comp_def)
  from i have "inj_on (\<lambda>v. (Section v, Index v)) (set vs)"
    by (rule inj_on_imageI2)
  with d show ?thesis
    by (simp add: wellFormed_def distinct_map)
qed

lemma normalizeVideos_filename:
  "normalizeVideos lib vs = Inr vs' \<Longrightarrow> map filename vs' = map outputStem vs"
  by (induction vs arbitrary: vs') (auto split: sum.splits)

section \<open>The sanitizer is idempotent\<close>

text \<open>
  Claim C2. For every string \<open>x\<close>, sanitizing twice gives what sanitizing once gives,
  every character of the result is in the class \<^verbatim>\<open>[A-Za-z0-9._-]\<close>, and the empty
  string is sanitized to the empty string. The function is total: it has no error
  result.
\<close>

theorem sanitize_idempotent:
  "sanitizeFileName (sanitizeFileName x) = sanitizeFileName x
   \<and> list_all validChar (sanitizeFileName x)
   \<and> sanitizeFileName [] = []"
proof -
  have "sanitizeFileName [] = []"
    by (simp add: sanitizeFileName_valid)
  then show ?thesis
    by (simp add: sanitizeFileName_valid sanitizeFileName_output)
qed

section \<open>The composition of the file name\<close>

text \<open>
  Claim C7 as stated fails: the sanitizer runs once, on the joined string, so white
  space that the removal of the branding text leaves at the end of the section title
  stands inside the string and becomes an underscore, while the sanitized section title
  alone has it trimmed.
\<close>

theorem stem_not_componentwise:
  "outputStem (pushResult ''https://www.linkedin.com/learning/go/welcome''
                 (Some ''Intro | LinkedIn Learning'') ''Welcome'' 1 ''2m'')
   \<noteq> sanitizeFileName ''Intro | LinkedIn Learning'' @ ''.'' @ fmt02d 1 @ ''.''
       @ sanitizeFileName ''Welcome''"
  by code_simp

text \<open>
  Claim C7, amended. The base name is the section title sanitized as the front of the
  string (branding removed, white space trimmed at its front only), a dot, the index
  padded to two digits, a dot, and the lesson title sanitized as the end of the string
  (branding removed, white space trimmed at its end only). When the section title
  without the branding does not end in white space and the lesson title without the
  branding does not begin with white space, these are the sanitized section title and
  the sanitized lesson title.
\<close>

theorem stem_composition:
  "outputStem v
     = sanitizeFront (Section v) @ ''.'' @ fmt02d (Index v) @ ''.'' @ sanitizeBack (Title v)
   \<and> (trailingEnc goSpace (ReplaceAll (Section v) ''| LinkedIn Learning'' []) = None
        \<and> leadingEnc goSpace (ReplaceAll (Title v) ''| LinkedIn Learning'' []) = None
      \<longrightarrow> outputStem v
            = sanitizeFileName (Section v) @ ''.'' @ fmt02d (Index v) @ ''.''
              @ sanitizeFileName (Title v))"
  by (simp add: outputStem_parts sanitizeFront_eq sanitizeBack_eq)

theorem stem_composition_witness:
  "trailingEnc goSpace (ReplaceAll ''Intro: Go'' ''| LinkedIn Learning'' []) = None
   \<and> leadingEnc goSpace (ReplaceAll ''Welcome | LinkedIn Learning'' ''| LinkedIn Learning'' []) = None
   \<and> outputStem (pushResult ''https://www.linkedin.com/learning/go/welcome''
                   (Some ''Intro: Go'') ''Welcome | LinkedIn Learning'' 1 ''2m'')
     = ''Intro_Go.01.Welcome''"
proof -
  let ?v = "pushResult ''https://www.linkedin.com/learning/go/welcome''
              (Some ''Intro: Go'') ''Welcome | LinkedIn Learning'' 1 ''2m''"
  have s: "Section ?v = ''Intro: Go''" and t: "Title ?v = ''Welcome | LinkedIn Learning''"
    and i: "Index ?v = 1"
    by (simp_all add: pushResult_def)
  have h1: "trailingEnc goSpace (ReplaceAll ''Intro: Go'' ''| LinkedIn Learning'' []) = None"
    by code_simp
  have h2: "leadingEnc goSpace (ReplaceAll ''Welcome | LinkedIn Learning'' ''| LinkedIn Learning'' []) = None"
    by code_simp
  have e: "sanitizeFileName ''Intro: Go'' @ ''.'' @ fmt02d 1 @ ''.''
           @ sanitizeFileName ''Welcome | LinkedIn Learning'' = ''Intro_Go.01.Welcome''"
    by code_simp
  from stem_composition [of ?v] h1 h2 have "outputStem ?v = ''Intro_Go.01.Welcome''"
    unfolding s t i e by blast
  with h1 h2 show ?thesis by blast
qed

section \<open>Distinct file names\<close>

text \<open>
  Claim C3 as stated fails: two section titles that differ only in characters outside
  the class are sanitized to the same text. The course below is well formed, and its
  two lessons get the same file name.
\<close>

theorem stems_collide:
  "wellFormed
     [pushResult ''https://www.linkedin.com/learning/c/intro-1'' (Some ''C++'') ''Introduction'' 1 ''3m'',
      pushResult ''https://www.linkedin.com/learning/c/intro-2'' (Some ''C#'') ''Introduction'' 1 ''4m'']
   \<and> (case normalizeVideos exampleLib
     [pushResult ''https://www.linkedin.com/learning/c/intro-1'' (Some ''C++'') ''Introduction'' 1 ''3m'',
      pushResult ''https://www.linkedin.com/learning/c/intro-2'' (Some ''C#'') ''Introduction'' 1 ''4m''] of
        Inl e \<Rightarrow> []
      | Inr vs' \<Rightarrow> map filename vs')
     = [''C_.01.Introduction'', ''C_.01.Introduction'']"
  by code_simp

text \<open>
  Claim C3, amended. In a course where the pairs of the section title, as it is
  sanitized at the front of the file name, and the index are pairwise distinct, and
  where no sanitized section title followed by a dot is a prefix of another sanitized
  section title, the file names that \<^verbatim>\<open>parseCourseVideos\<close> stores are pairwise
  distinct. Such a course is well formed.
\<close>

theorem stems_pairwise_distinct:
  assumes "distinct (map (\<lambda>v. (sanitizeFront (Section v), Index v)) vs)"
    and "noSectionPrefix vs"
    and "normalizeVideos lib vs = Inr vs'"
  shows "wellFormed vs \<and> distinct (map filename vs')"
  using stems_distinct [OF assms(1,2)] normalizeVideos_filename [OF assms(3)]
    sanitized_pairs_wellFormed [OF assms(1)]
  by simp

theorem stems_pairwise_distinct_witness:
  "distinct (map (\<lambda>v. (sanitizeFront (Section v), Index v))
     [pushResult ''https://www.linkedin.com/learning/go/welcome?u=2'' (Some ''Introduction'') ''Welcome'' 1 ''1m20s'',
      pushResult ''https://www.linkedin.com/learning/go/setup?u=2'' (Some ''Introduction'') ''Setup'' 2 ''2m5s'',
      pushResult ''https://www.linkedin.com/learning/go/types?u=2'' (Some ''1. Basics'') ''Types'' 1 ''4m''])
   \<and> noSectionPrefix
     [pushResult ''https://www.linkedin.com/learning/go/welcome?u=2'' (Some ''Introduction'') ''Welcome'' 1 ''1m20s'',
      pushResult ''https://www.linkedin.com/learning/go/setup?u=2'' (Some ''Introduction'') ''Setup'' 2 ''2m5s'',
      pushResult ''https://www.linkedin.com/learning/go/types?u=2'' (Some ''1. Basics'') ''Types'' 1 ''4m'']
   \<and> (case normalizeVideos exampleLib
     [pushResult ''https://www.linkedin.com/learning/go/welcome?u=2'' (Some ''Introduction'') ''Welcome'' 1 ''1m20s'',
      pushResult ''https://www.linkedin.com/learning/go/setup?u=2'' (Some ''Introduction'') ''Setup'' 2 ''2m5s'',
      pushResult ''https://www.linkedin.com/learning/go/types?u=2'' (Some ''1. Basics'') ''Types'' 1 ''4m''] of
        Inl e \<Rightarrow> False
      | Inr vs' \<Rightarrow> distinct (map filename vs'))"
proof -
  let ?vs = "[pushResult ''https://www.linkedin.com/learning/go/welcome?u=2'' (Some ''Introduction'') ''Welcome'' 1 ''1m20s'',
      pushResult ''https://www.linkedin.com/learning/go/setup?u=2'' (Some ''Introduction'') ''Setup'' 2 ''2m5s'',
      pushResult ''https://www.linkedin.com/learning/go/types?u=2'' (Some ''1. Basics'') ''Types'' 1 ''4m'']"
  have w: "distinct (map (\<lambda>v. (sanitizeFront (Section v), Index v)) ?vs)" by code_simp
  have t: "noSectionPrefix ?vs" by code_simp
  have "isl (normalizeVideos exampleLib ?vs) = False" by code_simp
  then obtain vs' where n: "normalizeVideos exampleLib ?vs = Inr vs'"
    by (cases "normalizeVideos exampleLib ?vs") simp_all
  from stems_pairwise_distinct [OF w t n] have "distinct (map filename vs')"
    by (rule conjunct2)
  with n have "case normalizeVideos exampleLib ?vs of
        Inl e \<Rightarrow> False
      | Inr vs' \<Rightarrow> distinct (map filename vs')"
    by simp
  with w t show ?thesis by (intro conjI)
qed

text \<open>
  The second condition is needed: a dot in a section title can move the boundary
  between the section and the index. In the course below the pairs of sanitized
  section title and index are distinct, and \<^verbatim>\<open>Part.\<close> is a prefix of
  \<^verbatim>\<open>Part.01\<close>.
\<close>

lemma stems_collide_on_dot:
  "wellFormed
     [pushResult ''https://www.linkedin.com/learning/c/a'' (Some ''Part.01'') ''Intro'' 1 ''3m'',
      pushResult ''https://www.linkedin.com/learning/c/b'' (Some ''Part'') ''01.Intro'' 1 ''4m'']
   \<and> distinct (map (\<lambda>v. (sanitizeFront (Section v), Index v))
        [pushResult ''https://www.linkedin.com/learning/c/a'' (Some ''Part.01'') ''Intro'' 1 ''3m'',
         pushResult ''https://www.linkedin.com/learning/c/b'' (Some ''Part'') ''01.Intro'' 1 ''4m''])
   \<and> noSectionPrefix
        [pushResult ''https://www.linkedin.com/learning/c/a'' (Some ''Part.01'') ''Intro'' 1 ''3m'',
         pushResult ''https://www.linkedin.com/learning/c/b'' (Some ''Part'') ''01.Intro'' 1 ''4m'']
       = False
   \<and> outputStem
        (pushResult ''https://www.linkedin.com/learning/c/a'' (Some ''Part.01'') ''Intro'' 1 ''3m'')
     = outputStem
        (pushResult ''https://www.linkedin.com/learning/c/b'' (Some ''Part'') ''01.Intro'' 1 ''4m'')"
  by code_simp

section \<open>Properties of the extraction script\<close>

lemma indices_step:
  "map (\<lambda>k. i + int k) [1..<Suc (Suc n)] = (i + 1) # map (\<lambda>k. (i + 1) + int k) [1..<Suc n]"
proof -
  have "[1..<Suc (Suc n)] = 1 # map Suc [1..<Suc n]"
    by (metis One_nat_def map_Suc_upt upt_conv_Cons zero_less_Suc Suc_less_eq)
  then show ?thesis by (simp add: comp_def)
qed

lemma videoLoop_readable:
  assumes "list_all titleReadable videos"
  shows "\<exists>new. videoLoop sectionName videos index results = Inr (results @ new)
           \<and> map Href new = List.map_filter linkHref videos
           \<and> map Index new = map (\<lambda>k. index + int k) [1..<Suc (length (List.map_filter linkHref videos))]"
  using assms
proof (induction videos arbitrary: index results)
  case Nil
  then show ?case by simp
next
  case (Cons video videos)
  then obtain title where t: "itemTitle video = Inr title"
    by (auto simp: titleReadable_def split: sum.splits)
  show ?case
  proof (cases "linkHref video")
    case None
    with Cons t show ?thesis by simp
  next
    case (Some href)
    let ?e = "pushResult href sectionName title (index + 1) (itemDuration video)"
    from Cons.prems have "list_all titleReadable videos" by simp
    from Cons.IH [OF this, of "index + 1" "results @ [?e]"] obtain new where new:
      "videoLoop sectionName videos (index + 1) (results @ [?e]) = Inr ((results @ [?e]) @ new)"
      "map Href new = List.map_filter linkHref videos"
      "map Index new = map (\<lambda>k. (index + 1) + int k) [1..<Suc (length (List.map_filter linkHref videos))]"
      by blast
    have "videoLoop sectionName (video # videos) index results = Inr (results @ ?e # new)"
      using t Some new(1) by simp
    moreover have "map Href (?e # new) = List.map_filter linkHref (video # videos)"
      using Some new(2) by (simp add: pushResult_def)
    moreover have "map Index (?e # new)
        = map (\<lambda>k. index + int k) [1..<Suc (length (List.map_filter linkHref (video # videos)))]"
      using Some new(3) indices_step [of index "length (List.map_filter linkHref videos)"]
      by (simp add: pushResult_def del: upt_Suc)
    ultimately show ?thesis by blast
  qed
qed

lemma sectionLoop_readable:
  assumes "pageReadable page"
  shows "\<exists>new. sectionLoop page results = Inr (results @ new)
           \<and> map Href new = concat (map keptLinks page)
           \<and> map Index new = concat (map (\<lambda>sec. map int [1..<Suc (length (keptLinks sec))]) page)"
  using assms
proof (induction page arbitrary: results)
  case Nil
  then show ?case by simp
next
  case (Cons sec sections)
  then have r: "list_all titleReadable (tocItems sec)" and p: "pageReadable sections"
    by (simp_all add: pageReadable_def)
  from videoLoop_readable [OF r, of "map_option jsTrim (toggleTitle sec)" 0 results]
  obtain new1 where new1:
    "videoLoop (map_option jsTrim (toggleTitle sec)) (tocItems sec) 0 results = Inr (results @ new1)"
    "map Href new1 = keptLinks sec"
    "map Index new1 = map int [1..<Suc (length (keptLinks sec))]"
    by (auto simp: keptLinks_def)
  from Cons.IH [OF p, of "results @ new1"]
  obtain new2 where new2:
    "sectionLoop sections (results @ new1) = Inr ((results @ new1) @ new2)"
    "map Href new2 = concat (map keptLinks sections)"
    "map Index new2 = concat (map (\<lambda>sec. map int [1..<Suc (length (keptLinks sec))]) sections)"
    by blast
  have "sectionLoop (sec # sections) results = Inr (results @ new1 @ new2)"
    using new1(1) new2(1) by simp
  moreover have "map Href (new1 @ new2) = concat (map keptLinks (sec # sections))"
    using new1(2) new2(2) by simp
  moreover have "map Index (new1 @ new2)
      = concat (map (\<lambda>sec. map int [1..<Suc (length (keptLinks sec))]) (sec # sections))"
    using new1(3) new2(3) by simp
  ultimately show ?case by blast
qed

lemma videoLoop_unreadable:
  "\<not> list_all titleReadable videos \<Longrightarrow> videoLoop sectionName videos index results = Inl TypeError"
proof (induction videos arbitrary: index results)
  case (Cons video videos)
  show ?case
  proof (cases "itemTitle video")
    case (Inl exn)
    then show ?thesis by (cases exn) simp
  next
    case (Inr title)
    then have "titleReadable video" by (simp add: titleReadable_def)
    with Cons.prems have "\<not> list_all titleReadable videos" by simp
    with Cons.IH Inr show ?thesis by (simp split: option.splits)
  qed
qed simp

lemma sectionLoop_unreadable:
  "\<not> pageReadable page \<Longrightarrow> sectionLoop page results = Inl TypeError"
proof (induction page arbitrary: results)
  case (Cons sec sections)
  show ?case
  proof (cases "list_all titleReadable (tocItems sec)")
    case False
    then show ?thesis by (simp add: videoLoop_unreadable)
  next
    case True
    with Cons.prems have "\<not> pageReadable sections"
      by (simp add: pageReadable_def)
    with Cons.IH have rest: "sectionLoop sections r = Inl TypeError" for r by blast
    show ?thesis
    proof (cases "videoLoop (map_option jsTrim (toggleTitle sec)) (tocItems sec) 0 results")
      case (Inl exn)
      then show ?thesis by (cases exn) simp
    next
      case (Inr r)
      with rest show ?thesis by simp
    qed
  qed
qed (simp add: pageReadable_def)

text \<open>
  What the script returns, page by page. On a page where each item, with or without a
  link, has a title element with a text node that is not blank, it returns exactly the
  items that have a link, in document order, and numbers the kept items of each section
  1, 2, ..., k. On any other page it throws.
\<close>

theorem extraction_keeps_linked_items:
  "(pageReadable page \<longrightarrow>
      (\<exists>results. videoParseJS page = Inr results
         \<and> length results = length (concat (map keptLinks page))
         \<and> map Href results = concat (map keptLinks page)
         \<and> map Index results
             = concat (map (\<lambda>sec. map int [1..<Suc (length (keptLinks sec))]) page)))
   \<and> (\<not> pageReadable page \<longrightarrow> videoParseJS page = Inl TypeError)"
proof (intro conjI impI)
  assume "pageReadable page"
  from sectionLoop_readable [OF this, of "[]"] obtain new where new:
    "sectionLoop page [] = Inr new" "map Href new = concat (map keptLinks page)"
    "map Index new = concat (map (\<lambda>sec. map int [1..<Suc (length (keptLinks sec))]) page)"
    by auto
  have "length new = length (concat (map keptLinks page))"
    using arg_cong [OF new(2), of length] by simp
  with new show "\<exists>results. videoParseJS page = Inr results
         \<and> length results = length (concat (map keptLinks page))
         \<and> map Href results = concat (map keptLinks page)
         \<and> map Index results
             = concat (map (\<lambda>sec. map int [1..<Suc (length (keptLinks sec))]) page)"
    unfolding videoParseJS_def by blast
next
  assume "\<not> pageReadable page"
  then show "videoParseJS page = Inl TypeError"
    unfolding videoParseJS_def by (rule sectionLoop_unreadable)
qed

theorem extraction_keeps_linked_items_witness:
  "pageReadable examplePage
   \<and> (case videoParseJS examplePage of
         Inl exn \<Rightarrow> False
       | Inr results \<Rightarrow> length results = 3 \<and> map Index results = [1, 2, 1])
   \<and> \<not> pageReadable brokenPage \<and> videoParseJS brokenPage = Inl TypeError"
proof -
  have r: "pageReadable examplePage" by code_simp
  have k: "concat (map (\<lambda>sec. map int [1..<Suc (length (keptLinks sec))]) examplePage) = [1, 2, 1]"
    by code_simp
  have l: "length (concat (map keptLinks examplePage)) = 3" by code_simp
  have b: "\<not> pageReadable brokenPage" by code_simp
  from extraction_keeps_linked_items [of examplePage] r
  have "\<exists>results. videoParseJS examplePage = Inr results
         \<and> length results = length (concat (map keptLinks examplePage))
         \<and> map Href results = concat (map keptLinks examplePage)
         \<and> map Index results
             = concat (map (\<lambda>sec. map int [1..<Suc (length (keptLinks sec))]) examplePage)"
    by (rule conjunct1 [THEN mp])
  then obtain results where res:
    "videoParseJS examplePage = Inr results" "length results = 3" "map Index results = [1, 2, 1]"
    unfolding k l by (elim exE conjE)
  from extraction_keeps_linked_items [of brokenPage] b
  have br: "videoParseJS brokenPage = Inl TypeError"
    by (rule conjunct2 [THEN mp])
  from res have "case videoParseJS examplePage of
         Inl exn \<Rightarrow> False
       | Inr results \<Rightarrow> length results = 3 \<and> map Index results = [1, 2, 1]"
    by (simp only: sum.case simp_thms)
  with r b br show ?thesis by (intro conjI)
qed

text \<open>
  Claim C8 fails on the code. The script means to skip an item without a link
  (\<^verbatim>\<open>if (!link) continue\<close>), but it reads the title of the item before that test,
  and without the guard \<^verbatim>\<open>?.\<close> that the reading of the section title has. On a page
  with an item that has no link and no title to read (no title element, or no text node
  in it that is not blank) the script throws: the item is not skipped, and of the items
  with a link none is returned.
\<close>

theorem linkless_item_aborts_extraction:
  assumes "sec \<in> set page" and "video \<in> set (tocItems sec)"
    and "linkHref video = None" and "\<not> titleReadable video"
  shows "videoParseJS page = Inl TypeError"
proof -
  from assms(2,4) have "\<not> list_all titleReadable (tocItems sec)"
    by (auto simp: list_all_iff)
  with assms(1) have "\<not> pageReadable page"
    by (auto simp: pageReadable_def list_all_iff)
  then show ?thesis
    unfolding videoParseJS_def by (rule sectionLoop_unreadable)
qed

theorem linkless_item_aborts_extraction_witness:
  "linkHref (tocItems (brokenPage ! 0) ! 1) = None
   \<and> titleReadable (tocItems (brokenPage ! 0) ! 1) = False
   \<and> concat (map keptLinks brokenPage) = [''https://www.linkedin.com/learning/go/welcome?u=2'']
   \<and> videoParseJS brokenPage = Inl TypeError"
proof -
  let ?sec = "brokenPage ! 0"
  let ?video = "tocItems ?sec ! 1"
  have s: "?sec \<in> set brokenPage" by (simp add: brokenPage_def)
  have v: "?video \<in> set (tocItems ?sec)" by (simp add: brokenPage_def)
  have l: "linkHref ?video = None" by (simp add: brokenPage_def)
  have "titleReadable ?video = False" by code_simp
  then have t: "\<not> titleReadable ?video" by simp
  have k: "concat (map keptLinks brokenPage)
           = [''https://www.linkedin.com/learning/go/welcome?u=2'']"
    by code_simp
  from linkless_item_aborts_extraction [OF s v l t] l t k show ?thesis by simp
qed

section \<open>Traces\<close>

lemma emit_emit: "emit b (emit a st) = emit (a @ b) st"
  by (simp add: emit_def)

lemma trace_emit: "trace (emit evs st) = trace st @ evs"
  by (simp add: emit_def)

lemma files_emit: "files (emit evs st) = files st"
  by (simp add: emit_def)

lemma trace_writeFile: "trace (writeFile name content st) = trace st"
  by (simp add: writeFile_def)

lemma lessonLines_append: "lessonLines (a @ b) = lessonLines a @ lessonLines b"
  by (simp add: lessonLines_def List.map_filter_def)

lemma navigated_append: "navigated (a @ b) = navigated a @ navigated b"
  by (simp add: navigated_def List.map_filter_def)

lemma visitVideo_returns_any:
  "(visitVideo as href b c st = None) = (visitVideo as href' b' c st' = None)"
proof (induction as arbitrary: c st st')
  case (Cons a as)
  show ?case
  proof (cases a)
    case (RunFailed err)
    with Cons [of "c + 1"] show ?thesis by simp
  next
    case (Loaded rl ht)
    with Cons [of "c + 1"] show ?thesis by simp
  qed
qed simp

lemma visitVideo_trace:
  "visitVideo as href b c st = Some (r, st') \<Longrightarrow>
   \<exists>evs. st' = emit evs st \<and> lessonLines evs = [] \<and> set (navigated evs) \<subseteq> {href}"
proof (induction as arbitrary: c st)
  case (Cons a as)
  have one: "lessonLines [Navigate href] = [] \<and> set (navigated [Navigate href]) \<subseteq> {href}"
    by (simp add: lessonLines_def navigated_def)
  show ?case
  proof (cases a)
    case (RunFailed err)
    show ?thesis
    proof (cases "c \<ge> maxRetry")
      case True
      with Cons.prems RunFailed one show ?thesis by auto
    next
      case False
      let ?evs = "[Navigate href, Log (NavigationRetry err), Sleep b]"
      from False Cons.prems RunFailed
      have "visitVideo as href b (c + 1) (emit ?evs st) = Some (r, st')" by simp
      from Cons.IH [OF this] obtain evs where
        "st' = emit evs (emit ?evs st)" "lessonLines evs = []" "set (navigated evs) \<subseteq> {href}"
        by blast
      then have "st' = emit (?evs @ evs) st \<and> lessonLines (?evs @ evs) = []
          \<and> set (navigated (?evs @ evs)) \<subseteq> {href}"
        by (simp add: emit_emit lessonLines_def navigated_def)
      then show ?thesis by blast
    qed
  next
    case (Loaded rl ht)
    show ?thesis
    proof (cases rl)
      case False
      with Cons.prems Loaded one show ?thesis by (auto split: if_splits)
    next
      case True
      let ?evs = "[Navigate href, Log RateLimited, Sleep b]"
      from True Cons.prems Loaded
      have "visitVideo as href b (c + 1) (emit ?evs st) = Some (r, st')" by simp
      from Cons.IH [OF this] obtain evs where
        "st' = emit evs (emit ?evs st)" "lessonLines evs = []" "set (navigated evs) \<subseteq> {href}"
        by blast
      then have "st' = emit (?evs @ evs) st \<and> lessonLines (?evs @ evs) = []
          \<and> set (navigated (?evs @ evs)) \<subseteq> {href}"
        by (simp add: emit_emit lessonLines_def navigated_def)
      then show ?thesis by blast
    qed
  qed
qed simp

lemma downloadTranscript_trace:
  "downloadTranscript lib lw video json st = (r, st') \<Longrightarrow>
   \<exists>evs. trace st' = trace st @ evs \<and> lessonLines evs = [] \<and> navigated evs = []"
  unfolding downloadTranscript_def Let_def
  by (auto simp: trace_emit trace_writeFile lessonLines_def navigated_def
      split: sum.splits option.splits if_splits)

lemma fetchVideo_trace:
  "fetchVideo lw name url st = (r, st') \<Longrightarrow>
   \<exists>evs. trace st' = trace st @ evs \<and> lessonLines evs = [] \<and> navigated evs = []"
  unfolding fetchVideo_def Let_def
  by (auto simp: trace_emit trace_writeFile lessonLines_def navigated_def
      split: sum.splits option.splits if_splits)

lemma downloadVideo_trace:
  assumes "downloadVideo lw video st = (r, st')"
  shows "\<exists>evs. trace st' = trace st @ evs \<and> lessonLines evs = [] \<and> navigated evs = []"
proof -
  have c: "lessonLines [Create n] = [] \<and> navigated [Create n] = []" for n
    by (simp add: lessonLines_def navigated_def)
  have n: "lessonLines [] = [] \<and> navigated [] = []"
    by (simp add: lessonLines_def navigated_def)
  show ?thesis
  proof (cases "findVideo lw")
    case (Inl err)
    with assms n show ?thesis by (auto simp: downloadVideo_def Let_def)
  next
    case (Inr url)
    show ?thesis
    proof (cases "url = []")
      case True
      with assms Inr n show ?thesis by (auto simp: downloadVideo_def Let_def)
    next
      case False
      let ?name = "filename video @ ''.mp4''"
      show ?thesis
      proof (cases "createVideo lw")
        case (Some err)
        with assms Inr False have "st' = emit [Create ?name] st"
          by (simp add: downloadVideo_def Let_def)
        with c show ?thesis by (metis trace_emit)
      next
        case None
        with assms Inr False
        have "fetchVideo lw ?name url (writeFile ?name [] (emit [Create ?name] st)) = (r, st')"
          by (simp add: downloadVideo_def Let_def)
        from fetchVideo_trace [OF this] obtain evs where
          "trace st' = (trace st @ [Create ?name]) @ evs" "lessonLines evs = []" "navigated evs = []"
          by (auto simp: trace_writeFile trace_emit)
        then have "trace st' = trace st @ ([Create ?name] @ evs)
            \<and> lessonLines ([Create ?name] @ evs) = [] \<and> navigated ([Create ?name] @ evs) = []"
          using c unfolding lessonLines_append navigated_append by simp
        then show ?thesis by blast
      qed
    qed
  qed
qed

lemma lessonEvents_Nil: "lessonEvents href []"
  by (simp add: lessonEvents_def lessonLines_def navigated_def)

lemma lessonEvents_append:
  "lessonEvents href a \<Longrightarrow> lessonEvents href b \<Longrightarrow> lessonEvents href (a @ b)"
  by (simp add: lessonEvents_def lessonLines_append navigated_append)

lemma lessonEvents_VisitFailed: "lessonEvents href [Log (VisitFailed err)]"
  by (simp add: lessonEvents_def lessonLines_def navigated_def)

lemma lessonEvents_Skipping: "lessonEvents href [Log (Skipping err)]"
  by (simp add: lessonEvents_def lessonLines_def navigated_def)

lemma visitVideo_lessonEvents:
  assumes "visitVideo as href b c st = Some (r, st')"
  shows "\<exists>evs. trace st' = trace st @ evs \<and> lessonEvents href evs"
  using visitVideo_trace [OF assms] by (auto simp: lessonEvents_def trace_emit)

lemma transcript_step:
  assumes "(if dl then downloadTranscript lib lw video json st else (None, st)) = (r, st')"
  shows "\<exists>evs. trace st' = trace st @ evs \<and> lessonEvents href evs"
proof (cases dl)
  case True
  with assms downloadTranscript_trace [of lib lw video json st r st'] show ?thesis
    by (auto simp: lessonEvents_def)
next
  case False
  with assms lessonEvents_Nil [of href] show ?thesis by auto
qed

lemma video_step:
  assumes "(if dl then downloadVideo lw video st else (None, st)) = (r, st')"
  shows "\<exists>evs. trace st' = trace st @ evs \<and> lessonEvents href evs"
proof (cases dl)
  case True
  with assms downloadVideo_trace [of lw video st r st'] show ?thesis
    by (auto simp: lessonEvents_def)
next
  case False
  with assms lessonEvents_Nil [of href] show ?thesis by auto
qed

lemma lessonLoop_step:
  assumes "navigatorReturns w i"
  shows "\<exists>next evs.
           lessonLoop lib f w n i (video # videos) st = lessonLoop lib f w n (i + 1) videos next
         \<and> trace next = trace st @ Log (Lesson (i + 1) n (Section video) (Title video)) # evs
         \<and> lessonEvents (Href video) evs"
proof -
  let ?lw = "lessons w i"
  let ?st1 = "emit [Log (Lesson (i + 1) n (Section video) (Title video))] st"
  let ?href = "Href video"
  have "visitVideo (visits ?lw) ?href (backoff f) 0 ?st1 \<noteq> None"
    using assms visitVideo_returns_any [of "visits ?lw" ?href "backoff f" 0 ?st1 "[]" 0 emptyProc]
    by (simp add: navigatorReturns_def)
  then obtain r st2 where v: "visitVideo (visits ?lw) ?href (backoff f) 0 ?st1 = Some (r, st2)"
    by auto
  from visitVideo_lessonEvents [OF v] obtain evs2 where
    e2: "trace st2 = trace ?st1 @ evs2" "lessonEvents ?href evs2" by blast
  show ?thesis
  proof (cases r)
    case (Some err)
    let ?next = "emit [Log (VisitFailed err)] st2"
    have "lessonLoop lib f w n i (video # videos) st = lessonLoop lib f w n (i + 1) videos ?next"
      using v Some by simp
    moreover have "trace ?next
        = trace st @ Log (Lesson (i + 1) n (Section video) (Title video)) # (evs2 @ [Log (VisitFailed err)])"
      using e2(1) by (simp add: trace_emit)
    moreover have "lessonEvents ?href (evs2 @ [Log (VisitFailed err)])"
      using e2(2) lessonEvents_VisitFailed by (rule lessonEvents_append)
    ultimately show ?thesis by blast
  next
    case None
    obtain r3 st3 where t: "(if dlTranscripts f then downloadTranscript lib ?lw video (saveJSON f) st2
                    else (None, st2)) = (r3, st3)"
      by (metis surj_pair)
    from transcript_step [OF t] obtain evs3 where
      e3: "trace st3 = trace st2 @ evs3" "lessonEvents ?href evs3" by blast
    show ?thesis
    proof (cases r3)
      case (Some err)
      let ?next = "emit [Log (Skipping err)] st3"
      have "lessonLoop lib f w n i (video # videos) st = lessonLoop lib f w n (i + 1) videos ?next"
        using v None t Some by simp
      moreover have "trace ?next
          = trace st @ Log (Lesson (i + 1) n (Section video) (Title video))
              # (evs2 @ evs3 @ [Log (Skipping err)])"
        using e2(1) e3(1) by (simp add: trace_emit)
      moreover have "lessonEvents ?href (evs2 @ evs3 @ [Log (Skipping err)])"
        by (intro lessonEvents_append e2(2) e3(2) lessonEvents_Skipping)
      ultimately show ?thesis by blast
    next
      case r3None: None
      obtain r4 st4 where d: "(if dlVideos f then downloadVideo ?lw video st3 else (None, st3)) = (r4, st4)"
        by (metis surj_pair)
      from video_step [OF d] obtain evs4 where
        e4: "trace st4 = trace st3 @ evs4" "lessonEvents ?href evs4" by blast
      show ?thesis
      proof (cases r4)
        case (Some err)
        let ?next = "emit [Log (Skipping err)] st4"
        have "lessonLoop lib f w n i (video # videos) st = lessonLoop lib f w n (i + 1) videos ?next"
          using v None t r3None d Some by simp
        moreover have "trace ?next
            = trace st @ Log (Lesson (i + 1) n (Section video) (Title video))
                # (evs2 @ evs3 @ evs4 @ [Log (Skipping err)])"
          using e2(1) e3(1) e4(1) by (simp add: trace_emit)
        moreover have "lessonEvents ?href (evs2 @ evs3 @ evs4 @ [Log (Skipping err)])"
          by (intro lessonEvents_append e2(2) e3(2) e4(2) lessonEvents_Skipping)
        ultimately show ?thesis by blast
      next
        case r4None: None
        have "lessonLoop lib f w n i (video # videos) st = lessonLoop lib f w n (i + 1) videos st4"
          using v None t r3None d r4None by simp
        moreover have "trace st4
            = trace st @ Log (Lesson (i + 1) n (Section video) (Title video)) # (evs2 @ evs3 @ evs4)"
          using e2(1) e3(1) e4(1) by (simp add: trace_emit)
        moreover have "lessonEvents ?href (evs2 @ evs3 @ evs4)"
          by (intro lessonEvents_append e2(2) e3(2) e4(2))
        ultimately show ?thesis by blast
      qed
    qed
  qed
qed

subsection \<open>The log of a lesson\<close>

lemma lessonLog_append: "lessonLog (a @ b) = lessonLog a @ lessonLog b"
  by (simp add: lessonLog_def List.map_filter_def)

lemma lessonLog_emit: "lessonLog (trace (emit evs st)) = lessonLog (trace st) @ lessonLog evs"
  by (simp add: trace_emit lessonLog_append)

lemma navigated_emit: "navigated (trace (emit evs st)) = navigated (trace st) @ navigated evs"
  by (simp add: trace_emit navigated_append)

lemma visitVideo_result_any:
  "map_option fst (visitVideo as href b c st) = map_option fst (visitVideo as href b' c st')"
proof (induction as arbitrary: c st st')
  case (Cons a as)
  show ?case
  proof (cases a)
    case (RunFailed err)
    with Cons [of "c + 1"] show ?thesis by simp
  next
    case (Loaded rl ht)
    with Cons [of "c + 1"] show ?thesis by simp
  qed
qed simp

lemma visitVideo_log:
  "visitVideo as href b c st = Some (r, st') \<Longrightarrow>
   lessonLog (trace st') = lessonLog (trace st)
   \<and> href \<in> set (navigated (trace st'))
   \<and> set (navigated (trace st)) \<subseteq> set (navigated (trace st'))"
proof (induction as arbitrary: c st)
  case (Cons a as)
  have one: "lessonLog [Navigate href] = []" "navigated [Navigate href] = [href]"
    by (simp_all add: lessonLog_def navigated_def)
  show ?case
  proof (cases a)
    case (RunFailed err)
    show ?thesis
    proof (cases "c \<ge> maxRetry")
      case True
      with Cons.prems RunFailed have "st' = emit [Navigate href] st" by simp
      with one show ?thesis by (auto simp: lessonLog_emit navigated_emit)
    next
      case False
      let ?evs = "[Navigate href, Log (NavigationRetry err), Sleep b]"
      have e: "lessonLog ?evs = []" by (simp add: lessonLog_def)
      from False Cons.prems RunFailed
      have "visitVideo as href b (c + 1) (emit ?evs st) = Some (r, st')" by simp
      from Cons.IH [OF this] e show ?thesis
        by (auto simp: lessonLog_emit navigated_emit)
    qed
  next
    case (Loaded rl ht)
    show ?thesis
    proof (cases rl)
      case False
      with Cons.prems Loaded have "st' = emit [Navigate href] st"
        by (auto split: if_splits)
      with one show ?thesis by (auto simp: lessonLog_emit navigated_emit)
    next
      case True
      let ?evs = "[Navigate href, Log RateLimited, Sleep b]"
      have e: "lessonLog ?evs = []" by (simp add: lessonLog_def)
      from True Cons.prems Loaded
      have "visitVideo as href b (c + 1) (emit ?evs st) = Some (r, st')" by simp
      from Cons.IH [OF this] e show ?thesis
        by (auto simp: lessonLog_emit navigated_emit)
    qed
  qed
qed simp

lemma downloadTranscript_result:
  "fst (downloadTranscript lib lw video json st) = transcriptResult lib lw video json"
  unfolding transcriptResult_def downloadTranscript_def Let_def
  by (simp split: sum.splits option.splits prod.splits)

lemma fetchVideo_result:
  "fst (fetchVideo lw name url st) = fst (fetchVideo lw name url st')"
  unfolding fetchVideo_def Let_def
  by (auto split: sum.splits option.splits)

lemma downloadVideo_result:
  "fst (downloadVideo lw video st) = videoResult lw video"
  unfolding videoResult_def downloadVideo_def Let_def
  using fetchVideo_result
  by (simp split: sum.splits option.splits)

lemma downloadTranscript_log:
  "downloadTranscript lib lw video json st = (r, st') \<Longrightarrow>
   lessonLog (trace st') = lessonLog (trace st)"
  unfolding downloadTranscript_def Let_def
  by (auto simp: trace_emit trace_writeFile lessonLog_def List.map_filter_def
      split: sum.splits option.splits if_splits)

lemma fetchVideo_log:
  "fetchVideo lw name url st = (r, st') \<Longrightarrow> lessonLog (trace st') = lessonLog (trace st)"
  unfolding fetchVideo_def Let_def
  by (auto simp: trace_emit trace_writeFile lessonLog_def List.map_filter_def
      split: sum.splits option.splits if_splits)

lemma downloadVideo_log:
  "downloadVideo lw video st = (r, st') \<Longrightarrow> lessonLog (trace st') = lessonLog (trace st)"
  unfolding downloadVideo_def Let_def
  by (auto simp: trace_emit trace_writeFile lessonLog_def List.map_filter_def
      dest!: fetchVideo_log split: sum.splits option.splits if_splits)


lemma transcript_log_step:
  assumes "(if dl then downloadTranscript lib lw video json st else (None, st)) = (r, st')"
  shows "lessonLog (trace st') = lessonLog (trace st)
       \<and> set (navigated (trace st)) \<subseteq> set (navigated (trace st'))
       \<and> r = (if dl then transcriptResult lib lw video json else None)"
proof (cases dl)
  case True
  with assms have d: "downloadTranscript lib lw video json st = (r, st')" by simp
  from transcript_step [OF assms, of "[]"] obtain evs where "trace st' = trace st @ evs"
    by blast
  then have "set (navigated (trace st)) \<subseteq> set (navigated (trace st'))"
    by (simp add: navigated_append)
  moreover from d downloadTranscript_result [of lib lw video json st]
  have "r = transcriptResult lib lw video json" by simp
  ultimately show ?thesis using downloadTranscript_log [OF d] True by simp
next
  case False
  with assms show ?thesis by simp
qed

lemma video_log_step:
  assumes "(if dl then downloadVideo lw video st else (None, st)) = (r, st')"
  shows "lessonLog (trace st') = lessonLog (trace st)
       \<and> set (navigated (trace st)) \<subseteq> set (navigated (trace st'))
       \<and> r = (if dl then videoResult lw video else None)"
proof (cases dl)
  case True
  with assms have d: "downloadVideo lw video st = (r, st')" by simp
  from video_step [OF assms, of "[]"] obtain evs where "trace st' = trace st @ evs"
    by blast
  then have "set (navigated (trace st)) \<subseteq> set (navigated (trace st'))"
    by (simp add: navigated_append)
  moreover from d downloadVideo_result [of lw video st]
  have "r = videoResult lw video" by simp
  ultimately show ?thesis using downloadVideo_log [OF d] True by simp
next
  case False
  with assms show ?thesis by simp
qed

lemma navigated_log_line: "navigated [Log l] = []"
  by (simp add: navigated_def)

lemma lessonLog_line:
  "lessonLog [Log (Lesson k n s t)] = [Lesson k n s t]"
  "lessonLog [Log (VisitFailed err)] = [VisitFailed err]"
  "lessonLog [Log (Skipping err)] = [Skipping err]"
  by (simp_all add: lessonLog_def)

lemma lessonLoop_log_step:
  assumes "navigatorReturns w i"
  shows "\<exists>next.
           lessonLoop lib f w n i (video # videos) st = lessonLoop lib f w n (i + 1) videos next
         \<and> lessonLog (trace next)
             = lessonLog (trace st)
               @ Lesson (i + 1) n (Section video) (Title video) # failureLine lib f w i video
         \<and> Href video \<in> set (navigated (trace next))
         \<and> set (navigated (trace st)) \<subseteq> set (navigated (trace next))"
proof -
  let ?lw = "lessons w i"
  let ?line = "Lesson (i + 1) n (Section video) (Title video)"
  let ?st1 = "emit [Log ?line] st"
  let ?href = "Href video"
  have "visitVideo (visits ?lw) ?href (backoff f) 0 ?st1 \<noteq> None"
    using assms visitVideo_returns_any [of "visits ?lw" ?href "backoff f" 0 ?st1 "[]" 0 emptyProc]
    by (simp add: navigatorReturns_def)
  then obtain r st2 where v: "visitVideo (visits ?lw) ?href (backoff f) 0 ?st1 = Some (r, st2)"
    by auto
  have "visitResult w i ?href = map_option fst (visitVideo (visits ?lw) ?href (backoff f) 0 ?st1)"
    unfolding visitResult_def by (rule visitVideo_result_any)
  with v have vr: "visitResult w i ?href = Some r" by simp
  have l1: "lessonLog (trace ?st1) = lessonLog (trace st) @ [?line]"
    by (simp add: lessonLog_emit lessonLog_line)
  have n1: "navigated (trace ?st1) = navigated (trace st)"
    by (simp add: navigated_emit navigated_log_line)
  from visitVideo_log [OF v] l1 n1
  have l2: "lessonLog (trace st2) = lessonLog (trace st) @ [?line]"
    and h2: "?href \<in> set (navigated (trace st2))"
    and n2: "set (navigated (trace st)) \<subseteq> set (navigated (trace st2))"
    by simp_all
  show ?thesis
  proof (cases r)
    case (Some err)
    let ?next = "emit [Log (VisitFailed err)] st2"
    have "lessonLoop lib f w n i (video # videos) st = lessonLoop lib f w n (i + 1) videos ?next"
      using v Some by simp
    moreover have "failureLine lib f w i video = [VisitFailed err]"
      unfolding failureLine_def vr using Some by simp
    then have "lessonLog (trace ?next) = lessonLog (trace st) @ ?line # failureLine lib f w i video"
      using l2 by (simp add: lessonLog_emit lessonLog_line)
    moreover have "navigated (trace ?next) = navigated (trace st2)"
      by (simp add: navigated_emit navigated_log_line)
    ultimately show ?thesis using h2 n2 by (intro exI [of _ ?next]) simp
  next
    case None
    obtain r3 st3 where t: "(if dlTranscripts f then downloadTranscript lib ?lw video (saveJSON f) st2
                    else (None, st2)) = (r3, st3)"
      by (metis surj_pair)
    from transcript_log_step [OF t] l2 h2 n2
    have l3: "lessonLog (trace st3) = lessonLog (trace st) @ [?line]"
      and h3: "?href \<in> set (navigated (trace st3))"
      and n3: "set (navigated (trace st)) \<subseteq> set (navigated (trace st3))"
      and r3: "(if dlTranscripts f then transcriptResult lib ?lw video (saveJSON f) else None) = r3"
      by auto
    show ?thesis
    proof (cases r3)
      case (Some err)
      let ?next = "emit [Log (Skipping err)] st3"
      have "lessonLoop lib f w n i (video # videos) st = lessonLoop lib f w n (i + 1) videos ?next"
        using v None t Some by simp
      moreover have "failureLine lib f w i video = [Skipping err]"
        unfolding failureLine_def vr r3 using None Some by simp
      then have "lessonLog (trace ?next)
                 = lessonLog (trace st) @ ?line # failureLine lib f w i video"
        using l3 by (simp add: lessonLog_emit lessonLog_line)
      moreover have "navigated (trace ?next) = navigated (trace st3)"
        by (simp add: navigated_emit navigated_log_line)
      ultimately show ?thesis using h3 n3 by (intro exI [of _ ?next]) simp
    next
      case r3None: None
      obtain r4 st4 where d: "(if dlVideos f then downloadVideo ?lw video st3 else (None, st3)) = (r4, st4)"
        by (metis surj_pair)
      from video_log_step [OF d] l3 h3 n3
      have l4: "lessonLog (trace st4) = lessonLog (trace st) @ [?line]"
        and h4: "?href \<in> set (navigated (trace st4))"
        and n4: "set (navigated (trace st)) \<subseteq> set (navigated (trace st4))"
        and r4: "(if dlVideos f then videoResult ?lw video else None) = r4"
        by auto
      show ?thesis
      proof (cases r4)
        case (Some err)
        let ?next = "emit [Log (Skipping err)] st4"
        have "lessonLoop lib f w n i (video # videos) st = lessonLoop lib f w n (i + 1) videos ?next"
          using v None t r3None d Some by simp
        moreover have "failureLine lib f w i video = [Skipping err]"
          unfolding failureLine_def vr r3 r4 using None r3None Some by simp
        then have "lessonLog (trace ?next)
                   = lessonLog (trace st) @ ?line # failureLine lib f w i video"
          using l4 by (simp add: lessonLog_emit lessonLog_line)
        moreover have "navigated (trace ?next) = navigated (trace st4)"
          by (simp add: navigated_emit navigated_log_line)
        ultimately show ?thesis using h4 n4 by (intro exI [of _ ?next]) simp
      next
        case r4None: None
        have "lessonLoop lib f w n i (video # videos) st = lessonLoop lib f w n (i + 1) videos st4"
          using v None t r3None d r4None by simp
        moreover have "failureLine lib f w i video = []"
          unfolding failureLine_def vr r3 r4 using None r3None r4None by simp
        then have "lessonLog (trace st4)
                   = lessonLog (trace st) @ ?line # failureLine lib f w i video"
          using l4 by simp
        ultimately show ?thesis using h4 n4 by (intro exI [of _ st4]) simp
      qed
    qed
  qed
qed

section \<open>The run as a whole\<close>

lemma lessonLines_Lesson:
  "lessonLines (Log (Lesson k n s t) # evs) = k # lessonLines evs"
  by (simp add: lessonLines_def)

lemma navigated_Log: "navigated (Log l # evs) = navigated evs"
  by (simp add: navigated_def)

lemma lessonLoop_runs:
  assumes "\<forall>j. i \<le> j \<and> j < i + length videos \<longrightarrow> navigatorReturns w j"
  shows "\<exists>st' evs. lessonLoop lib f w n i videos st = Some st'
           \<and> trace st' = trace st @ evs
           \<and> lessonLines evs = [Suc i..<Suc i + length videos]
           \<and> set (navigated evs) \<subseteq> set (map Href videos)"
  using assms
proof (induction videos arbitrary: i st)
  case Nil
  show ?case
    by (simp add: lessonLines_def navigated_def)
next
  case (Cons video videos)
  from Cons.prems have "navigatorReturns w i" by simp
  from Cons.prems
  have later: "\<forall>j. i + 1 \<le> j \<and> j < i + 1 + length videos \<longrightarrow> navigatorReturns w j"
    by simp
  from lessonLoop_step [OF \<open>navigatorReturns w i\<close>, of lib f n video videos st]
  obtain "next" evs1 where
    s: "lessonLoop lib f w n i (video # videos) st = lessonLoop lib f w n (i + 1) videos next"
       "trace next = trace st @ Log (Lesson (i + 1) n (Section video) (Title video)) # evs1"
       "lessonEvents (Href video) evs1"
    by blast
  from Cons.IH [OF later, of "next"] obtain st' evs2 where
    r: "lessonLoop lib f w n (i + 1) videos next = Some st'"
       "trace st' = trace next @ evs2"
       "lessonLines evs2 = [Suc (i + 1)..<Suc (i + 1) + length videos]"
       "set (navigated evs2) \<subseteq> set (map Href videos)"
    by blast
  let ?evs = "Log (Lesson (i + 1) n (Section video) (Title video)) # (evs1 @ evs2)"
  have "lessonLoop lib f w n i (video # videos) st = Some st'"
    using s(1) r(1) by simp
  moreover have "trace st' = trace st @ ?evs"
    using s(2) r(2) by simp
  moreover have "lessonLines ?evs = [Suc i..<Suc i + length (video # videos)]"
  proof -
    have "[Suc i..<Suc i + length (video # videos)]
          = Suc i # [Suc (i + 1)..<Suc (i + 1) + length videos]"
      using upt_conv_Cons [of "Suc i" "Suc i + length (video # videos)"]
      by (simp del: upt_Suc)
    then show ?thesis
      using s(3) r(3)
      by (simp add: lessonLines_Lesson lessonLines_append lessonEvents_def del: upt_Suc)
  qed
  moreover have "set (navigated ?evs) \<subseteq> set (map Href (video # videos))"
    using s(3) r(4) by (auto simp: navigated_Log navigated_append lessonEvents_def)
  ultimately show ?case by blast
qed

lemma lessonLoop_log:
  assumes "\<forall>j. i \<le> j \<and> j < i + length videos \<longrightarrow> navigatorReturns w j"
  shows "\<exists>st'. lessonLoop lib f w n i videos st = Some st'
           \<and> lessonLog (trace st') = lessonLog (trace st) @ expectedLog lib f w n i videos
           \<and> set (map Href videos) \<subseteq> set (navigated (trace st'))
           \<and> set (navigated (trace st)) \<subseteq> set (navigated (trace st'))"
  using assms
proof (induction videos arbitrary: i st)
  case Nil
  show ?case by simp
next
  case (Cons video videos)
  from Cons.prems have "navigatorReturns w i" by simp
  from Cons.prems
  have later: "\<forall>j. i + 1 \<le> j \<and> j < i + 1 + length videos \<longrightarrow> navigatorReturns w j"
    by simp
  from lessonLoop_log_step [OF \<open>navigatorReturns w i\<close>, of lib f n video videos st]
  obtain "next" where
    s: "lessonLoop lib f w n i (video # videos) st = lessonLoop lib f w n (i + 1) videos next"
       "lessonLog (trace next)
          = lessonLog (trace st)
            @ Lesson (i + 1) n (Section video) (Title video) # failureLine lib f w i video"
       "Href video \<in> set (navigated (trace next))"
       "set (navigated (trace st)) \<subseteq> set (navigated (trace next))"
    by blast
  from Cons.IH [OF later, of "next"] obtain st' where
    r: "lessonLoop lib f w n (i + 1) videos next = Some st'"
       "lessonLog (trace st') = lessonLog (trace next) @ expectedLog lib f w n (i + 1) videos"
       "set (map Href videos) \<subseteq> set (navigated (trace st'))"
       "set (navigated (trace next)) \<subseteq> set (navigated (trace st'))"
    by blast
  have "lessonLoop lib f w n i (video # videos) st = Some st'"
    using s(1) r(1) by simp
  moreover have "lessonLog (trace st')
                 = lessonLog (trace st) @ expectedLog lib f w n i (video # videos)"
    using s(2) r(2) by simp
  moreover have "set (map Href (video # videos)) \<subseteq> set (navigated (trace st'))"
    using s(3) r(3,4) by auto
  moreover have "set (navigated (trace st)) \<subseteq> set (navigated (trace st'))"
    using s(4) r(4) by auto
  ultimately show ?case by blast
qed

lemma parseCourseVideos_result:
  "parseCourseVideos lib w url st
   = (extraction lib w, emit [Log ParsingCourse, Navigate url] st)"
  by (simp add: extraction_def parseCourseVideos_def Let_def split: sum.splits)

lemma main_sso_failure:
  assumes "dlVideos f \<or> dlTranscripts f" and "ssoResult w = Some err"
  shows "main lib f w st0
         = Some (1, emit [Log LoggingIn, Navigate (ssoURL f),
                          Log (Fatal (ChromeError err)), Exit 1] st0)"
  using assms by (auto simp: main_def ssoLogin_def logFatal_def emit_emit)

lemma main_extraction_failure:
  assumes "dlVideos f \<or> dlTranscripts f" and "ssoResult w = None"
    and "extraction lib w = Inl e"
  shows "main lib f w st0
         = Some (1, emit [Log LoggingIn, Navigate (ssoURL f), Log LoggedIn,
                          Log ParsingCourse, Navigate (courseURL f),
                          Log (Fatal e), Exit 1] st0)"
  using assms
  by (auto simp: main_def ssoLogin_def logFatal_def emit_emit parseCourseVideos_result)

lemma main_success:
  assumes "dlVideos f \<or> dlTranscripts f" and "ssoResult w = None"
    and "extraction lib w = Inr videos" and "\<forall>i<length videos. navigatorReturns w i"
  shows "\<exists>st evs. main lib f w st0 = Some (0, st)
           \<and> trace st = trace st0
               @ [Log LoggingIn, Navigate (ssoURL f), Log LoggedIn, Log ParsingCourse,
                  Navigate (courseURL f), Log (Found (length videos) (countSections videos))]
               @ evs @ [Log AllSaved, TimeoutCancel, ChromeCancel, AllocCancel, Exit 0]
           \<and> lessonLines evs = [1..<Suc (length videos)]
           \<and> set (navigated evs) \<subseteq> set (map Href videos)"
proof -
  let ?st4 = "emit [Log LoggingIn, Navigate (ssoURL f), Log LoggedIn, Log ParsingCourse,
                  Navigate (courseURL f), Log (Found (length videos) (countSections videos))] st0"
  from assms(4)
  have "\<forall>j. 0 \<le> j \<and> j < 0 + length videos \<longrightarrow> navigatorReturns w j" by simp
  from lessonLoop_runs [OF this, of lib f "length videos" ?st4]
  obtain st5 evs where l:
    "lessonLoop lib f w (length videos) 0 videos ?st4 = Some st5"
    "trace st5 = trace ?st4 @ evs"
    "lessonLines evs = [1..<Suc (length videos)]"
    "set (navigated evs) \<subseteq> set (map Href videos)"
    by auto
  let ?st = "emit [Exit 0] (cancel (emit [Log AllSaved] st5))"
  have "main lib f w st0 = Some (0, ?st)"
    using assms(1-3) l(1)
    by (auto simp: main_def ssoLogin_def emit_emit parseCourseVideos_result)
  moreover have "trace ?st = trace st0
               @ [Log LoggingIn, Navigate (ssoURL f), Log LoggedIn, Log ParsingCourse,
                  Navigate (courseURL f), Log (Found (length videos) (countSections videos))]
               @ evs @ [Log AllSaved, TimeoutCancel, ChromeCancel, AllocCancel, Exit 0]"
    using l(2) by (simp add: trace_emit cancel_def)
  ultimately show ?thesis using l(3,4) by blast
qed

lemma main_no_download:
  assumes "\<not> dlVideos f" and "\<not> dlTranscripts f"
  shows "main lib f w st0 = Some (1, emit [Log NoDownloadRequested, Exit 1] st0)"
  using assms by (simp add: main_def)

lemma main_success_log:
  assumes "dlVideos f \<or> dlTranscripts f" and "ssoResult w = None"
    and "extraction lib w = Inr videos" and "\<forall>i<length videos. navigatorReturns w i"
  shows "\<exists>st. main lib f w st0 = Some (0, st)
           \<and> lessonLog (trace st)
               = lessonLog (trace st0) @ expectedLog lib f w (length videos) 0 videos
           \<and> set (map Href videos) \<subseteq> set (navigated (trace st))"
proof -
  let ?pre = "[Log LoggingIn, Navigate (ssoURL f), Log LoggedIn, Log ParsingCourse,
                  Navigate (courseURL f), Log (Found (length videos) (countSections videos))]"
  let ?st4 = "emit ?pre st0"
  from assms(4)
  have "\<forall>j. 0 \<le> j \<and> j < 0 + length videos \<longrightarrow> navigatorReturns w j" by simp
  from lessonLoop_log [OF this, of lib f "length videos" ?st4]
  obtain st5 where l:
    "lessonLoop lib f w (length videos) 0 videos ?st4 = Some st5"
    "lessonLog (trace st5) = lessonLog (trace ?st4) @ expectedLog lib f w (length videos) 0 videos"
    "set (map Href videos) \<subseteq> set (navigated (trace st5))"
    by auto
  let ?st = "emit [Exit 0] (cancel (emit [Log AllSaved] st5))"
  have m: "main lib f w st0 = Some (0, ?st)"
    using assms(1-3) l(1)
    by (auto simp: main_def ssoLogin_def emit_emit parseCourseVideos_result)
  have "lessonLog ?pre = []" by (simp add: lessonLog_def)
  then have "lessonLog (trace ?st4) = lessonLog (trace st0)"
    by (simp add: lessonLog_emit)
  moreover have "lessonLog [Log AllSaved, TimeoutCancel, ChromeCancel, AllocCancel, Exit 0] = []"
    by (simp add: lessonLog_def)
  ultimately have "lessonLog (trace ?st)
             = lessonLog (trace st0) @ expectedLog lib f w (length videos) 0 videos"
    using l(2) by (simp add: trace_emit cancel_def lessonLog_append)
  moreover have "set (map Href videos) \<subseteq> set (navigated (trace ?st))"
    using l(3) by (auto simp: trace_emit cancel_def navigated_append)
  ultimately show ?thesis using m by blast
qed

lemma extraction_page:
  "coursePage w = Inr page \<Longrightarrow> videoParseJS page = Inr raw \<Longrightarrow>
   extraction lib w = normalizeVideos lib raw"
  by (simp add: extraction_def parseCourseVideos_def)

lemma normalizeVideos_parses:
  "list_all (parses lib) raw \<Longrightarrow>
   \<exists>videos. normalizeVideos lib raw = Inr videos
     \<and> map Href videos = map (\<lambda>v. strippedLink lib (Href v)) raw"
proof (induction raw)
  case (Cons v vs)
  then obtain videos where "normalizeVideos lib vs = Inr videos"
    "map Href videos = map (\<lambda>v. strippedLink lib (Href v)) vs"
    by auto
  moreover from Cons.prems obtain u where "urlParse lib (Href v) = Inr u"
    by (auto simp: parses_def split: sum.splits)
  ultimately show ?case by (simp add: strippedLink_def)
qed simp

lemma normalizeVideos_bad:
  "\<not> list_all (parses lib) raw \<Longrightarrow> \<exists>err. normalizeVideos lib raw = Inl (BadURL err)"
proof (induction raw)
  case (Cons v vs)
  show ?case
  proof (cases "urlParse lib (Href v)")
    case (Inl err)
    then show ?thesis by simp
  next
    case (Inr u)
    then have "parses lib v" by (simp add: parses_def)
    with Cons obtain err where "normalizeVideos lib vs = Inl (BadURL err)" by auto
    with Inr show ?thesis by simp
  qed
qed simp

lemma exampleWorld_returns: "navigatorReturns exampleWorld i"
  by (simp add: navigatorReturns_def exampleWorld_def exampleLesson_def emptyProc_def maxRetry_def)

lemma exampleFlags_download: "dlVideos exampleFlags \<or> dlTranscripts exampleFlags"
  by (simp add: exampleFlags_def)

lemma exampleWorld_login: "ssoResult exampleWorld = None"
  by (simp add: exampleWorld_def)

text \<open>
  Claim C5 as stated fails on the code. Authentication failure and extraction failure
  are not the only ways to a non-zero status: \<^verbatim>\<open>main\<close> first checks that a kind of
  download was requested and leaves through \<^verbatim>\<open>log.Fatal\<close> when none was. In the
  run below neither flag is set; the login of this world succeeds and its course page
  extracts, yet the process ends with status 1, before either is attempted.
\<close>

theorem no_download_requested_exits_nonzero:
  "ssoResult exampleWorld = None
   \<and> isl (extraction exampleLib exampleWorld) = False
   \<and> map_option (\<lambda>(status, st). (status, trace st))
        (main exampleLib (exampleFlags\<lparr>dlVideos := False, dlTranscripts := False\<rparr>)
           exampleWorld emptyProc)
      = Some (1, [Log NoDownloadRequested, Exit 1])"
proof -
  have "isl (extraction exampleLib exampleWorld) = False" by code_simp
  moreover have "map_option (\<lambda>(status, st). (status, trace st))
        (main exampleLib (exampleFlags\<lparr>dlVideos := False, dlTranscripts := False\<rparr>)
           exampleWorld emptyProc)
      = Some (1, [Log NoDownloadRequested, Exit 1])"
    by (simp add: main_def exampleFlags_def emptyProc_def emit_def)
  ultimately show ?thesis using exampleWorld_login by (intro conjI)
qed

text \<open>
  Claim C5, amended. \<^verbatim>\<open>main\<close> ends with status 1 in three cases: when no kind of
  download was requested, when the login fails, and when the extraction fails. In every
  other run in which the navigator returns for each extracted lesson, whatever it
  returns, \<^verbatim>\<open>main\<close> ends with status 0, whatever the navigator and the fetchers
  returned for each lesson, and the traversal was not cut short: the progress lines and
  the failure lines of the trace are, lesson by lesson and in order, the progress line of
  the lesson followed by the line of its failure, when the visit or a requested fetcher
  failed; and the page of every extracted lesson was navigated to.
\<close>

theorem per_lesson_failures_do_not_abort:
  "(\<not> dlVideos f \<and> \<not> dlTranscripts f \<longrightarrow>
      main lib f w st0 = Some (1, emit [Log NoDownloadRequested, Exit 1] st0))
   \<and> ((dlVideos f \<or> dlTranscripts f) \<and> (ssoResult w \<noteq> None \<or> isl (extraction lib w)) \<longrightarrow>
        (\<exists>st. main lib f w st0 = Some (1, st)))
   \<and> ((dlVideos f \<or> dlTranscripts f) \<and> ssoResult w = None \<and> extraction lib w = Inr videos
          \<and> (\<forall>i<length videos. navigatorReturns w i) \<longrightarrow>
        (\<exists>st. main lib f w st0 = Some (0, st)
           \<and> lessonLines (trace st) = lessonLines (trace st0) @ [1..<Suc (length videos)]
           \<and> lessonLog (trace st)
               = lessonLog (trace st0) @ expectedLog lib f w (length videos) 0 videos
           \<and> set (map Href videos) \<subseteq> set (navigated (trace st))))"
proof (intro conjI impI)
  assume "\<not> dlVideos f \<and> \<not> dlTranscripts f"
  then show "main lib f w st0 = Some (1, emit [Log NoDownloadRequested, Exit 1] st0)"
    using main_no_download by blast
next
  assume "(dlVideos f \<or> dlTranscripts f) \<and> (ssoResult w \<noteq> None \<or> isl (extraction lib w))"
  then have fl: "dlVideos f \<or> dlTranscripts f"
    and "ssoResult w \<noteq> None \<or> isl (extraction lib w)" by simp_all
  then consider err where "ssoResult w = Some err"
    | e where "ssoResult w = None" "extraction lib w = Inl e"
    by (cases "ssoResult w"; cases "extraction lib w") auto
  then show "\<exists>st. main lib f w st0 = Some (1, st)"
  proof cases
    case 1
    from main_sso_failure [OF fl 1] show ?thesis by blast
  next
    case 2
    from main_extraction_failure [OF fl 2] show ?thesis by blast
  qed
next
  assume "(dlVideos f \<or> dlTranscripts f) \<and> ssoResult w = None \<and> extraction lib w = Inr videos
            \<and> (\<forall>i<length videos. navigatorReturns w i)"
  then have fl: "dlVideos f \<or> dlTranscripts f"
    and ok: "ssoResult w = None" "extraction lib w = Inr videos"
    and r: "\<forall>i<length videos. navigatorReturns w i" by simp_all
  from main_success [OF fl ok r, of st0] obtain st evs where
    m: "main lib f w st0 = Some (0, st)"
    and t: "trace st = trace st0
               @ [Log LoggingIn, Navigate (ssoURL f), Log LoggedIn, Log ParsingCourse,
                  Navigate (courseURL f), Log (Found (length videos) (countSections videos))]
               @ evs @ [Log AllSaved, TimeoutCancel, ChromeCancel, AllocCancel, Exit 0]"
    and l: "lessonLines evs = [1..<Suc (length videos)]"
    by blast
  have pre: "lessonLines [Log LoggingIn, Navigate (ssoURL f), Log LoggedIn, Log ParsingCourse,
                  Navigate (courseURL f), Log (Found (length videos) (countSections videos))] = []"
    by (simp add: lessonLines_def)
  have post: "lessonLines [Log AllSaved, TimeoutCancel, ChromeCancel, AllocCancel, Exit 0] = []"
    by (simp add: lessonLines_def)
  have a: "lessonLines (trace st) = lessonLines (trace st0) @ [1..<Suc (length videos)]"
    unfolding t lessonLines_append pre post l by simp
  from main_success_log [OF fl ok r, of st0] m
  have b: "lessonLog (trace st)
             = lessonLog (trace st0) @ expectedLog lib f w (length videos) 0 videos"
    and c: "set (map Href videos) \<subseteq> set (navigated (trace st))"
    by auto
  from m a b c
  show "\<exists>st. main lib f w st0 = Some (0, st)
           \<and> lessonLines (trace st) = lessonLines (trace st0) @ [1..<Suc (length videos)]
           \<and> lessonLog (trace st)
               = lessonLog (trace st0) @ expectedLog lib f w (length videos) 0 videos
           \<and> set (map Href videos) \<subseteq> set (navigated (trace st))"
    by blast
qed

theorem per_lesson_failures_do_not_abort_witness:
  "(dlVideos exampleFlags \<or> dlTranscripts exampleFlags)
   \<and> ssoResult exampleWorld = None
   \<and> list_all (navigatorReturns exampleWorld) [0, 1, 2]
   \<and> map_option (\<lambda>(status, st). (status, lessonLines (trace st), lessonLog (trace st)))
        (main exampleLib exampleFlags exampleWorld emptyProc)
      = Some (0, [1, 2, 3],
              [Lesson 1 3 ''Introduction'' ''Welcome'',
               Lesson 2 3 ''Introduction'' ''Setup'',
               VisitFailed (NoTranscript ''https://www.linkedin.com/learning/go/setup''),
               Lesson 3 3 ''1. Basics'' ''Types'',
               Skipping (BadStatus ''403 Forbidden'')])
   \<and> set [''https://www.linkedin.com/learning/go/welcome'',
           ''https://www.linkedin.com/learning/go/setup'',
           ''https://www.linkedin.com/learning/go/types'']
       \<subseteq> set (case main exampleLib exampleFlags exampleWorld emptyProc of
                 None \<Rightarrow> [] | Some (status, st) \<Rightarrow> navigated (trace st))
   \<and> map_option fst (main exampleLib exampleFlags badLinkWorld emptyProc) = Some 1
   \<and> map_option (\<lambda>(status, st). (status, trace st))
        (main exampleLib (exampleFlags\<lparr>dlVideos := False, dlTranscripts := False\<rparr>)
           exampleWorld emptyProc)
      = Some (1, [Log NoDownloadRequested, Exit 1])"
proof -
  let ?none = "exampleFlags\<lparr>dlVideos := False, dlTranscripts := False\<rparr>"
  let ?videos = "case extraction exampleLib exampleWorld of Inl e \<Rightarrow> [] | Inr vs \<Rightarrow> vs"
  have r: "list_all (navigatorReturns exampleWorld) [0, 1, 2]"
    using exampleWorld_returns by simp
  have "isl (extraction exampleLib exampleWorld) = False" by code_simp
  then obtain videos where x: "extraction exampleLib exampleWorld = Inr videos"
    by (cases "extraction exampleLib exampleWorld") simp_all
  have "length ?videos = 3" by code_simp
  with x have n: "length videos = 3" by simp
  have "map Href ?videos
        = [''https://www.linkedin.com/learning/go/welcome'',
           ''https://www.linkedin.com/learning/go/setup'',
           ''https://www.linkedin.com/learning/go/types'']"
    by code_simp
  with x have h: "map Href videos
        = [''https://www.linkedin.com/learning/go/welcome'',
           ''https://www.linkedin.com/learning/go/setup'',
           ''https://www.linkedin.com/learning/go/types'']"
    by simp
  have "expectedLog exampleLib exampleFlags exampleWorld 3 0 ?videos
        = [Lesson 1 3 ''Introduction'' ''Welcome'',
           Lesson 2 3 ''Introduction'' ''Setup'',
           VisitFailed (NoTranscript ''https://www.linkedin.com/learning/go/setup''),
           Lesson 3 3 ''1. Basics'' ''Types'',
           Skipping (BadStatus ''403 Forbidden'')]"
    by code_simp
  with x have g: "expectedLog exampleLib exampleFlags exampleWorld 3 0 videos
        = [Lesson 1 3 ''Introduction'' ''Welcome'',
           Lesson 2 3 ''Introduction'' ''Setup'',
           VisitFailed (NoTranscript ''https://www.linkedin.com/learning/go/setup''),
           Lesson 3 3 ''1. Basics'' ''Types'',
           Skipping (BadStatus ''403 Forbidden'')]"
    by simp
  have e: "lessonLines (trace emptyProc) = []" "lessonLog (trace emptyProc) = []"
    by (simp_all add: emptyProc_def lessonLines_def lessonLog_def)
  have u: "[1..<Suc 3] = [1, 2, 3]" by code_simp
  have "\<forall>i<length videos. navigatorReturns exampleWorld i"
    using exampleWorld_returns by blast
  with per_lesson_failures_do_not_abort [of exampleFlags exampleLib exampleWorld emptyProc videos]
    exampleFlags_download exampleWorld_login x
  obtain st where m: "main exampleLib exampleFlags exampleWorld emptyProc = Some (0, st)"
    and "lessonLines (trace st) = lessonLines (trace emptyProc) @ [1..<Suc (length videos)]"
    and "lessonLog (trace st)
         = lessonLog (trace emptyProc)
           @ expectedLog exampleLib exampleFlags exampleWorld (length videos) 0 videos"
    and "set (map Href videos) \<subseteq> set (navigated (trace st))"
    by blast
  then have s: "lessonLines (trace st) = [1, 2, 3]"
    and t: "lessonLog (trace st)
         = [Lesson 1 3 ''Introduction'' ''Welcome'',
           Lesson 2 3 ''Introduction'' ''Setup'',
           VisitFailed (NoTranscript ''https://www.linkedin.com/learning/go/setup''),
           Lesson 3 3 ''1. Basics'' ''Types'',
           Skipping (BadStatus ''403 Forbidden'')]"
    and v: "set [''https://www.linkedin.com/learning/go/welcome'',
           ''https://www.linkedin.com/learning/go/setup'',
           ''https://www.linkedin.com/learning/go/types''] \<subseteq> set (navigated (trace st))"
    unfolding n e u g h by simp_all
  have a: "map_option (\<lambda>(status, st). (status, lessonLines (trace st), lessonLog (trace st)))
        (main exampleLib exampleFlags exampleWorld emptyProc)
      = Some (0, [1, 2, 3],
              [Lesson 1 3 ''Introduction'' ''Welcome'',
               Lesson 2 3 ''Introduction'' ''Setup'',
               VisitFailed (NoTranscript ''https://www.linkedin.com/learning/go/setup''),
               Lesson 3 3 ''1. Basics'' ''Types'',
               Skipping (BadStatus ''403 Forbidden'')])"
    unfolding m using s t by simp
  have b: "set [''https://www.linkedin.com/learning/go/welcome'',
           ''https://www.linkedin.com/learning/go/setup'',
           ''https://www.linkedin.com/learning/go/types'']
       \<subseteq> set (case main exampleLib exampleFlags exampleWorld emptyProc of
                 None \<Rightarrow> [] | Some (status, st) \<Rightarrow> navigated (trace st))"
    unfolding m using v by simp
  have "isl (extraction exampleLib badLinkWorld)" by code_simp
  with per_lesson_failures_do_not_abort [of exampleFlags exampleLib badLinkWorld emptyProc videos]
    exampleFlags_download
  obtain st' where "main exampleLib exampleFlags badLinkWorld emptyProc = Some (1, st')"
    by blast
  then have c: "map_option fst (main exampleLib exampleFlags badLinkWorld emptyProc) = Some 1"
    by simp
  have "\<not> dlVideos ?none \<and> \<not> dlTranscripts ?none" by simp
  with per_lesson_failures_do_not_abort [of ?none exampleLib exampleWorld emptyProc videos]
  have "main exampleLib ?none exampleWorld emptyProc
        = Some (1, emit [Log NoDownloadRequested, Exit 1] emptyProc)"
    by blast
  then have d: "map_option (\<lambda>(status, st). (status, trace st))
        (main exampleLib ?none exampleWorld emptyProc)
      = Some (1, [Log NoDownloadRequested, Exit 1])"
    by (simp add: emit_def emptyProc_def)
  from exampleFlags_download exampleWorld_login r a b c d show ?thesis by (intro conjI)
qed

text \<open>
  Claim C9 fails on the code. \<^verbatim>\<open>main\<close> defers the combined \<^verbatim>\<open>cancel\<close>, and on the
  two fatal paths it leaves through \<^verbatim>\<open>log.Fatal\<close>, which ends the process without
  running deferred calls: when the login fails, and when the extraction fails, the
  trace ends with the fatal line and the exit, and holds no teardown event.
\<close>

theorem fatal_exit_skips_teardown:
  assumes "dlVideos f \<or> dlTranscripts f"
  shows "(ssoResult w = Some err \<longrightarrow>
            main lib f w st0
            = Some (1, emit [Log LoggingIn, Navigate (ssoURL f),
                             Log (Fatal (ChromeError err)), Exit 1] st0))
       \<and> (ssoResult w = None \<and> extraction lib w = Inl e \<longrightarrow>
            main lib f w st0
            = Some (1, emit [Log LoggingIn, Navigate (ssoURL f), Log LoggedIn,
                             Log ParsingCourse, Navigate (courseURL f),
                             Log (Fatal e), Exit 1] st0))"
  using main_sso_failure [OF assms] main_extraction_failure [OF assms] by blast

theorem fatal_exit_skips_teardown_witness:
  "(dlVideos exampleFlags \<or> dlTranscripts exampleFlags)
   \<and> ssoResult (exampleWorld\<lparr>ssoResult := Some ''context deadline exceeded''\<rparr>)
       = Some ''context deadline exceeded''
   \<and> map_option (\<lambda>(status, st). (status, trace st, teardowns (trace st)))
        (main exampleLib exampleFlags
           (exampleWorld\<lparr>ssoResult := Some ''context deadline exceeded''\<rparr>) emptyProc)
     = Some (1,
             [Log LoggingIn,
              Navigate ''https://www.linkedin.com/checkpoint/enterprise/login/1'',
              Log (Fatal (ChromeError ''context deadline exceeded'')), Exit 1],
             [])
   \<and> ssoResult (exampleWorld\<lparr>coursePage := Inr brokenPage\<rparr>) = None
   \<and> extraction exampleLib (exampleWorld\<lparr>coursePage := Inr brokenPage\<rparr>)
       = Inl (ScriptException TypeError)
   \<and> map_option (\<lambda>(status, st). (status, trace st, teardowns (trace st)))
        (main exampleLib exampleFlags (exampleWorld\<lparr>coursePage := Inr brokenPage\<rparr>) emptyProc)
     = Some (1,
             [Log LoggingIn,
              Navigate ''https://www.linkedin.com/checkpoint/enterprise/login/1'',
              Log LoggedIn, Log ParsingCourse,
              Navigate ''https://www.linkedin.com/learning/go'',
              Log (Fatal (ScriptException TypeError)), Exit 1],
             [])"
proof -
  let ?w = "exampleWorld\<lparr>ssoResult := Some ''context deadline exceeded''\<rparr>"
  let ?b = "exampleWorld\<lparr>coursePage := Inr brokenPage\<rparr>"
  have sb: "ssoResult ?b = None" by (simp add: exampleWorld_def)
  have xb: "extraction exampleLib ?b = Inl (ScriptException TypeError)" by code_simp
  from fatal_exit_skips_teardown [OF exampleFlags_download, of ?b _ exampleLib emptyProc
      "ScriptException TypeError"] sb xb
  have "main exampleLib exampleFlags ?b emptyProc
        = Some (1, emit [Log LoggingIn, Navigate (ssoURL exampleFlags), Log LoggedIn,
                         Log ParsingCourse, Navigate (courseURL exampleFlags),
                         Log (Fatal (ScriptException TypeError)), Exit 1] emptyProc)"
    by blast
  then have mb: "map_option (\<lambda>(status, st). (status, trace st, teardowns (trace st)))
        (main exampleLib exampleFlags ?b emptyProc)
     = Some (1,
             [Log LoggingIn,
              Navigate ''https://www.linkedin.com/checkpoint/enterprise/login/1'',
              Log LoggedIn, Log ParsingCourse,
              Navigate ''https://www.linkedin.com/learning/go'',
              Log (Fatal (ScriptException TypeError)), Exit 1],
             [])"
    by (simp add: trace_emit emptyProc_def exampleFlags_def teardowns_def)
  have s: "ssoResult ?w = Some ''context deadline exceeded''" by simp
  from fatal_exit_skips_teardown [OF exampleFlags_download, of ?w
      "''context deadline exceeded''" exampleLib emptyProc] s
  have "main exampleLib exampleFlags ?w emptyProc
        = Some (1, emit [Log LoggingIn, Navigate (ssoURL exampleFlags),
                         Log (Fatal (ChromeError ''context deadline exceeded'')), Exit 1] emptyProc)"
    by blast
  then have "map_option (\<lambda>(status, st). (status, trace st, teardowns (trace st)))
        (main exampleLib exampleFlags ?w emptyProc)
     = Some (1,
             [Log LoggingIn,
              Navigate ''https://www.linkedin.com/checkpoint/enterprise/login/1'',
              Log (Fatal (ChromeError ''context deadline exceeded'')), Exit 1],
             [])"
    by (simp add: trace_emit emptyProc_def exampleFlags_def teardowns_def)
  with exampleFlags_download s sb xb mb show ?thesis by (intro conjI)
qed

text \<open>
  Claim C6. Let the page load and the script return its entries. If every link parses,
  the extractor returns the entries with each link replaced by the re-serialization of
  the parsed link with its query cleared, and \<^verbatim>\<open>main\<close> sends the browser to these
  links only, besides the login and the course page. If some link does not parse, the
  extractor returns an error, and \<^verbatim>\<open>main\<close> logs it as fatal and exits with status 1
  right after the course page: no lesson is visited.
\<close>

theorem links_stored_without_query:
  assumes "dlVideos f \<or> dlTranscripts f" and "ssoResult w = None"
    and "coursePage w = Inr page" and "videoParseJS page = Inr raw"
  shows "(list_all (parses lib) raw \<longrightarrow>
            (\<exists>videos. extraction lib w = Inr videos
               \<and> map Href videos = map (\<lambda>v. strippedLink lib (Href v)) raw
               \<and> ((\<forall>i<length raw. navigatorReturns w i) \<longrightarrow>
                    (\<exists>st. main lib f w st0 = Some (0, st)
                       \<and> set (navigated (trace st))
                           \<subseteq> set (navigated (trace st0)) \<union> {ssoURL f, courseURL f}
                               \<union> set (map (\<lambda>v. strippedLink lib (Href v)) raw)))))
       \<and> (\<not> list_all (parses lib) raw \<longrightarrow>
            (\<exists>err. extraction lib w = Inl (BadURL err)
               \<and> main lib f w st0
                   = Some (1, emit [Log LoggingIn, Navigate (ssoURL f), Log LoggedIn,
                                    Log ParsingCourse, Navigate (courseURL f),
                                    Log (Fatal (BadURL err)), Exit 1] st0)))"
proof (intro conjI impI)
  assume "list_all (parses lib) raw"
  from normalizeVideos_parses [OF this] obtain videos where
    v: "extraction lib w = Inr videos"
       "map Href videos = map (\<lambda>v. strippedLink lib (Href v)) raw"
    using extraction_page [OF assms(3,4)] by auto
  have "\<exists>st. main lib f w st0 = Some (0, st)
          \<and> set (navigated (trace st))
              \<subseteq> set (navigated (trace st0)) \<union> {ssoURL f, courseURL f}
                  \<union> set (map (\<lambda>v. strippedLink lib (Href v)) raw)"
    if r: "\<forall>i<length raw. navigatorReturns w i"
  proof -
    have "length videos = length raw"
      using arg_cong [OF v(2), of length] by simp
    with r have "\<forall>i<length videos. navigatorReturns w i" by simp
    from main_success [OF assms(1,2) v(1) this, of st0] obtain st evs where
      m: "main lib f w st0 = Some (0, st)"
      and t: "trace st = trace st0
               @ [Log LoggingIn, Navigate (ssoURL f), Log LoggedIn, Log ParsingCourse,
                  Navigate (courseURL f), Log (Found (length videos) (countSections videos))]
               @ evs @ [Log AllSaved, TimeoutCancel, ChromeCancel, AllocCancel, Exit 0]"
      and n: "set (navigated evs) \<subseteq> set (map Href videos)"
      by blast
    have pre: "navigated [Log LoggingIn, Navigate (ssoURL f), Log LoggedIn, Log ParsingCourse,
                  Navigate (courseURL f), Log (Found (length videos) (countSections videos))]
               = [ssoURL f, courseURL f]"
      by (simp add: navigated_def)
    have post: "navigated [Log AllSaved, TimeoutCancel, ChromeCancel, AllocCancel, Exit 0] = []"
      by (simp add: navigated_def)
    have "navigated (trace st) = navigated (trace st0) @ [ssoURL f, courseURL f] @ navigated evs"
      unfolding t navigated_append pre post by simp
    with n v(2) have "set (navigated (trace st))
              \<subseteq> set (navigated (trace st0)) \<union> {ssoURL f, courseURL f}
                  \<union> set (map (\<lambda>v. strippedLink lib (Href v)) raw)"
      by auto
    with m show ?thesis by blast
  qed
  with v show "\<exists>videos. extraction lib w = Inr videos
               \<and> map Href videos = map (\<lambda>v. strippedLink lib (Href v)) raw
               \<and> ((\<forall>i<length raw. navigatorReturns w i) \<longrightarrow>
                    (\<exists>st. main lib f w st0 = Some (0, st)
                       \<and> set (navigated (trace st))
                           \<subseteq> set (navigated (trace st0)) \<union> {ssoURL f, courseURL f}
                               \<union> set (map (\<lambda>v. strippedLink lib (Href v)) raw)))"
    by blast
next
  assume "\<not> list_all (parses lib) raw"
  from normalizeVideos_bad [OF this] obtain err where
    e: "extraction lib w = Inl (BadURL err)"
    using extraction_page [OF assms(3,4)] by auto
  from main_extraction_failure [OF assms(1,2) e] e
  show "\<exists>err. extraction lib w = Inl (BadURL err)
               \<and> main lib f w st0
                   = Some (1, emit [Log LoggingIn, Navigate (ssoURL f), Log LoggedIn,
                                    Log ParsingCourse, Navigate (courseURL f),
                                    Log (Fatal (BadURL err)), Exit 1] st0)"
    by blast
qed

theorem links_stored_without_query_witness:
  "(dlVideos exampleFlags \<or> dlTranscripts exampleFlags)
   \<and> ssoResult exampleWorld = None \<and> ssoResult badLinkWorld = None
   \<and> map Href (case extraction exampleLib exampleWorld of Inl e \<Rightarrow> [] | Inr vs \<Rightarrow> vs)
       = [''https://www.linkedin.com/learning/go/welcome'',
          ''https://www.linkedin.com/learning/go/setup'',
          ''https://www.linkedin.com/learning/go/types'']
   \<and> (case main exampleLib exampleFlags exampleWorld emptyProc of
         None \<Rightarrow> False
       | Some (status, st) \<Rightarrow>
           status = 0
           \<and> set (navigated (trace st))
               \<subseteq> {''https://www.linkedin.com/checkpoint/enterprise/login/1'',
                   ''https://www.linkedin.com/learning/go'',
                   ''https://www.linkedin.com/learning/go/welcome'',
                   ''https://www.linkedin.com/learning/go/setup'',
                   ''https://www.linkedin.com/learning/go/types''})
   \<and> map_option (\<lambda>(status, st). (status, trace st))
        (main exampleLib exampleFlags badLinkWorld emptyProc)
       = Some (1,
               [Log LoggingIn,
                Navigate ''https://www.linkedin.com/checkpoint/enterprise/login/1'',
                Log LoggedIn, Log ParsingCourse,
                Navigate ''https://www.linkedin.com/learning/go'',
                Log (Fatal (BadURL ''invalid URL escape'')), Exit 1])"
proof -
  let ?raw = "case videoParseJS examplePage of Inl e \<Rightarrow> [] | Inr r \<Rightarrow> r"
  let ?bad = "case videoParseJS badLinkPage of Inl e \<Rightarrow> [] | Inr r \<Rightarrow> r"
  have s: "ssoResult exampleWorld = None" "ssoResult badLinkWorld = None"
    by (simp_all add: exampleWorld_def badLinkWorld_def)
  have p: "coursePage exampleWorld = Inr examplePage" "coursePage badLinkWorld = Inr badLinkPage"
    by (simp_all add: exampleWorld_def badLinkWorld_def)
  have raw: "videoParseJS examplePage = Inr ?raw" by code_simp
  have bad: "videoParseJS badLinkPage = Inr ?bad" by code_simp
  have ok: "list_all (parses exampleLib) ?raw" by code_simp
  have nok: "\<not> list_all (parses exampleLib) ?bad" by code_simp
  have links: "map (\<lambda>v. strippedLink exampleLib (Href v)) ?raw
       = [''https://www.linkedin.com/learning/go/welcome'',
          ''https://www.linkedin.com/learning/go/setup'',
          ''https://www.linkedin.com/learning/go/types'']"
    by code_simp
  from links_stored_without_query [OF exampleFlags_download s(1) p(1) raw, of exampleLib emptyProc] ok
  obtain videos where v: "extraction exampleLib exampleWorld = Inr videos"
    "map Href videos = map (\<lambda>v. strippedLink exampleLib (Href v)) ?raw"
    and run: "(\<forall>i<length ?raw. navigatorReturns exampleWorld i) \<longrightarrow>
      (\<exists>st. main exampleLib exampleFlags exampleWorld emptyProc = Some (0, st)
         \<and> set (navigated (trace st))
             \<subseteq> set (navigated (trace emptyProc))
                 \<union> {ssoURL exampleFlags, courseURL exampleFlags}
                 \<union> set (map (\<lambda>v. strippedLink exampleLib (Href v)) ?raw))"
    by blast
  have "\<forall>i<length ?raw. navigatorReturns exampleWorld i"
    using exampleWorld_returns by blast
  with run obtain st where st: "main exampleLib exampleFlags exampleWorld emptyProc = Some (0, st)"
    "set (navigated (trace st))
       \<subseteq> set (navigated (trace emptyProc))
           \<union> {ssoURL exampleFlags, courseURL exampleFlags}
           \<union> set (map (\<lambda>v. strippedLink exampleLib (Href v)) ?raw)"
    by blast
  have none: "navigated (trace emptyProc) = []"
    by (simp add: emptyProc_def navigated_def)
  have urls: "ssoURL exampleFlags = ''https://www.linkedin.com/checkpoint/enterprise/login/1''"
    "courseURL exampleFlags = ''https://www.linkedin.com/learning/go''"
    by (simp_all add: exampleFlags_def)
  from st(2) have "set (navigated (trace st))
               \<subseteq> {''https://www.linkedin.com/checkpoint/enterprise/login/1'',
                   ''https://www.linkedin.com/learning/go'',
                   ''https://www.linkedin.com/learning/go/welcome'',
                   ''https://www.linkedin.com/learning/go/setup'',
                   ''https://www.linkedin.com/learning/go/types''}"
    unfolding links none urls
    by (simp only: list.set Un_insert_left Un_empty_left)
  with st(1) have c: "case main exampleLib exampleFlags exampleWorld emptyProc of
         None \<Rightarrow> False
       | Some (status, st) \<Rightarrow>
           status = 0
           \<and> set (navigated (trace st))
               \<subseteq> {''https://www.linkedin.com/checkpoint/enterprise/login/1'',
                   ''https://www.linkedin.com/learning/go'',
                   ''https://www.linkedin.com/learning/go/welcome'',
                   ''https://www.linkedin.com/learning/go/setup'',
                   ''https://www.linkedin.com/learning/go/types''}"
    by simp
  from v have a: "map Href (case extraction exampleLib exampleWorld of Inl e \<Rightarrow> [] | Inr vs \<Rightarrow> vs)
       = [''https://www.linkedin.com/learning/go/welcome'',
          ''https://www.linkedin.com/learning/go/setup'',
          ''https://www.linkedin.com/learning/go/types'']"
    unfolding links by simp
  from links_stored_without_query [OF exampleFlags_download s(2) p(2) bad, of exampleLib emptyProc] nok
  obtain err where e: "extraction exampleLib badLinkWorld = Inl (BadURL err)"
    and m: "main exampleLib exampleFlags badLinkWorld emptyProc
        = Some (1, emit [Log LoggingIn, Navigate (ssoURL exampleFlags), Log LoggedIn,
                         Log ParsingCourse, Navigate (courseURL exampleFlags),
                         Log (Fatal (BadURL err)), Exit 1] emptyProc)"
    by blast
  have "extraction exampleLib badLinkWorld = Inl (BadURL ''invalid URL escape'')" by code_simp
  with e have "err = ''invalid URL escape''" by simp
  with m have b: "map_option (\<lambda>(status, st). (status, trace st))
        (main exampleLib exampleFlags badLinkWorld emptyProc)
       = Some (1,
               [Log LoggingIn,
                Navigate ''https://www.linkedin.com/checkpoint/enterprise/login/1'',
                Log LoggedIn, Log ParsingCourse,
                Navigate ''https://www.linkedin.com/learning/go'',
                Log (Fatal (BadURL ''invalid URL escape'')), Exit 1])"
    by (simp add: trace_emit emptyProc_def exampleFlags_def)
  from exampleFlags_download s a c b show ?thesis by (intro conjI)
qed

section \<open>Properties of the navigator\<close>

lemma visitVideo_rate_limited:
  "visitVideo (replicate n (Loaded True h) @ rest) href b c st
   = visitVideo rest href b (c + int n)
       (emit (concat (replicate n [Navigate href, Log RateLimited, Sleep b])) st)"
proof (induction n arbitrary: c st)
  case 0
  show ?case by (simp add: emit_def)
next
  case (Suc n)
  have "c + 1 + int n = c + int (Suc n)" by simp
  with Suc [of "c + 1" "emit [Navigate href, Log RateLimited, Sleep b] st"]
  show ?case by (simp add: emit_emit)
qed

text \<open>
  Claim C1 fails on the code. Only the branch of the failed run compares
  \<^verbatim>\<open>count\<close> with \<^verbatim>\<open>maxRetry\<close>; the branch of the rate-limited page sleeps and calls
  \<^verbatim>\<open>visitVideo\<close> again whatever the count. After \<open>n\<close> rate-limited pages, for any
  \<open>n\<close>, the navigator has slept \<open>n\<close> times and goes on: it returns success when the next
  page is ready, and it has not returned when the outcomes end there.
\<close>

theorem rate_limit_retries_unbounded:
  "visitVideo (replicate n (Loaded True h) @ [Loaded False True]) href b 0 st
   = Some (None, emit (concat (replicate n [Navigate href, Log RateLimited, Sleep b])
                       @ [Navigate href]) st)
   \<and> visitVideo (replicate n (Loaded True h)) href b 0 st = None
   \<and> sleeps (concat (replicate n [Navigate href, Log RateLimited, Sleep b])) = replicate n b"
proof (intro conjI)
  show "visitVideo (replicate n (Loaded True h) @ [Loaded False True]) href b 0 st
   = Some (None, emit (concat (replicate n [Navigate href, Log RateLimited, Sleep b])
                       @ [Navigate href]) st)"
    by (simp add: visitVideo_rate_limited emit_emit)
  show "visitVideo (replicate n (Loaded True h)) href b 0 st = None"
    using visitVideo_rate_limited [of n h "[]" href b 0 st] by simp
  show "sleeps (concat (replicate n [Navigate href, Log RateLimited, Sleep b])) = replicate n b"
    by (induction n) (simp_all add: sleeps_def)
qed

text \<open>
  The sibling branch keeps the bound: the seventh failed run in a row ends the
  navigator with an error, after six sleeps.
\<close>

lemma navigation_failures_bounded:
  "visitVideo (replicate 7 (RunFailed err) @ rest) href b 0 st
   = Some (Some (NavigationFailed err),
           emit (concat (replicate 6 [Navigate href, Log (NavigationRetry err), Sleep b])
                 @ [Navigate href]) st)"
  by (simp add: eval_nat_numeral maxRetry_def emit_emit)

text \<open>
  Claim C4. When the page loads, is not rate limited and has no transcript control, the
  navigator returns the error \<^verbatim>\<open>NoTranscript\<close> on that attempt, whatever the count
  and whatever outcomes would follow: it navigates once and does not sleep. The loop
  of \<^verbatim>\<open>main\<close> then logs the failure and goes to the next lesson, so that the lesson
  has one navigation and no sleep.
\<close>

theorem no_transcript_no_retry:
  "visitVideo (Loaded False False # rest) href b c st
   = Some (Some (NoTranscript href), emit [Navigate href] st)
   \<and> (visits (lessons w i) = Loaded False False # rest \<longrightarrow>
        lessonLoop lib f w n i (video # videos) st
        = lessonLoop lib f w n (i + 1) videos
            (emit [Log (Lesson (i + 1) n (Section video) (Title video)),
                   Navigate (Href video),
                   Log (VisitFailed (NoTranscript (Href video)))] st))"
  by (simp add: emit_emit)

theorem no_transcript_no_retry_witness:
  "visits (lessons exampleWorld 1) = [Loaded False False]
   \<and> map_option trace
       (lessonLoop exampleLib exampleFlags exampleWorld 3 1
          [pushResult ''https://www.linkedin.com/learning/go/setup'' (Some ''Introduction'')
             ''Setup'' 2 ''2m5s''] emptyProc)
     = Some [Log (Lesson 2 3 ''Introduction'' ''Setup''),
             Navigate ''https://www.linkedin.com/learning/go/setup'',
             Log (VisitFailed (NoTranscript ''https://www.linkedin.com/learning/go/setup''))]"
proof -
  let ?v = "pushResult ''https://www.linkedin.com/learning/go/setup'' (Some ''Introduction'')
             ''Setup'' 2 ''2m5s''"
  have v: "visits (lessons exampleWorld 1) = [Loaded False False]"
    by (simp add: exampleWorld_def exampleLesson_def)
  from no_transcript_no_retry [where rest = "[]" and w = exampleWorld and i = 1
      and lib = exampleLib and f = exampleFlags and n = 3 and video = ?v and videos = "[]"
      and st = emptyProc] v
  have "lessonLoop exampleLib exampleFlags exampleWorld 3 1 [?v] emptyProc
        = lessonLoop exampleLib exampleFlags exampleWorld 3 (1 + 1) []
            (emit [Log (Lesson (1 + 1) 3 (Section ?v) (Title ?v)),
                   Navigate (Href ?v),
                   Log (VisitFailed (NoTranscript (Href ?v)))] emptyProc)"
    by blast
  then have "map_option trace
       (lessonLoop exampleLib exampleFlags exampleWorld 3 1 [?v] emptyProc)
     = Some [Log (Lesson 2 3 ''Introduction'' ''Setup''),
             Navigate ''https://www.linkedin.com/learning/go/setup'',
             Log (VisitFailed (NoTranscript ''https://www.linkedin.com/learning/go/setup''))]"
    by (simp add: trace_emit emptyProc_def pushResult_def)
  with v show ?thesis by (intro conjI)
qed

section \<open>Properties of the video fetcher\<close>

lemma files_writeFile: "files (writeFile name content st) name = Some content"
  by (simp add: writeFile_def)

lemma fetchVideo_requestError:
  assumes "fetchVideo lw name url st2 = (Some err, st')" and "requestError err"
  shows "files st' = files st2
         \<and> trace st' = trace st2 @ (case err of RequestFailed e \<Rightarrow> [] | _ \<Rightarrow> [HttpGet url])"
  using assms unfolding fetchVideo_def Let_def
  by (auto simp: requestError_def files_emit trace_emit
      split: option.splits sum.splits if_splits)

text \<open>
  Claim C10. \<^verbatim>\<open>downloadVideo\<close> creates the file, which empties it, before it builds
  and sends the request. Whenever it returns the error of a request that cannot be
  built, of a request that fails or of a status other than 200, the file with the
  name of the lesson and the extension \<^verbatim>\<open>.mp4\<close> exists and is empty, whatever stood
  there before; the trace shows the creation first and the request, if it was sent,
  after it.
\<close>

theorem video_file_left_empty:
  assumes "downloadVideo lw video st = (Some err, st')" and "requestError err"
  shows "files st' (filename video @ ''.mp4'') = Some []
         \<and> (\<exists>url. findVideo lw = Inr url
               \<and> trace st' = trace st @ Create (filename video @ ''.mp4'')
                     # (case err of RequestFailed e \<Rightarrow> [] | _ \<Rightarrow> [HttpGet url]))"
proof -
  let ?name = "filename video @ ''.mp4''"
  from assms obtain url where u: "findVideo lw = Inr url" "url \<noteq> []"
    by (cases "findVideo lw") (auto simp: downloadVideo_def requestError_def split: if_splits)
  from assms u have c: "createVideo lw = None"
    by (cases "createVideo lw") (auto simp: downloadVideo_def Let_def requestError_def)
  let ?st2 = "writeFile ?name [] (emit [Create ?name] st)"
  from assms(1) u c have "fetchVideo lw ?name url ?st2 = (Some err, st')"
    by (simp add: downloadVideo_def Let_def)
  from fetchVideo_requestError [OF this assms(2)]
  have "files st' = files ?st2"
    and "trace st' = trace ?st2 @ (case err of RequestFailed e \<Rightarrow> [] | _ \<Rightarrow> [HttpGet url])"
    by simp_all
  then have "files st' ?name = Some []"
    and "trace st' = trace st @ Create ?name
           # (case err of RequestFailed e \<Rightarrow> [] | _ \<Rightarrow> [HttpGet url])"
    by (simp_all add: files_writeFile trace_writeFile trace_emit)
  with u(1) show ?thesis by blast
qed

theorem video_file_left_empty_witness:
  "requestError (BadStatus ''403 Forbidden'')
   \<and> files (writeFile ''1._Basics.01.Types.mp4'' ''bytes of an earlier run'' emptyProc)
        ''1._Basics.01.Types.mp4'' = Some ''bytes of an earlier run''
   \<and> (case downloadVideo (exampleLesson 2)
              \<lparr>Href = ''https://www.linkedin.com/learning/go/types'', Section = ''1. Basics'',
                Title = ''Types'', Index = 1, Duration = ''4m'', Transcript = [],
                filename = ''1._Basics.01.Types''\<rparr>
              (writeFile ''1._Basics.01.Types.mp4'' ''bytes of an earlier run'' emptyProc) of
         (r, st') \<Rightarrow> r = Some (BadStatus ''403 Forbidden'')
                    \<and> files st' ''1._Basics.01.Types.mp4'' = Some []
                    \<and> trace st' = [Create ''1._Basics.01.Types.mp4'',
                                   HttpGet ''https://media.example/v.mp4''])"
proof -
  let ?v = "\<lparr>Href = ''https://www.linkedin.com/learning/go/types'', Section = ''1. Basics'',
                Title = ''Types'', Index = 1, Duration = ''4m'', Transcript = [],
                filename = ''1._Basics.01.Types''\<rparr>"
  let ?st = "writeFile ''1._Basics.01.Types.mp4'' ''bytes of an earlier run'' emptyProc"
  have q: "requestError (BadStatus ''403 Forbidden'')" by (simp add: requestError_def)
  have o: "files ?st ''1._Basics.01.Types.mp4'' = Some ''bytes of an earlier run''"
    by (simp add: files_writeFile)
  have "fst (downloadVideo (exampleLesson 2) ?v ?st) = Some (BadStatus ''403 Forbidden'')"
    by (simp add: downloadVideo_def fetchVideo_def exampleLesson_def Let_def)
  then obtain st' where d: "downloadVideo (exampleLesson 2) ?v ?st
      = (Some (BadStatus ''403 Forbidden''), st')"
    by (cases "downloadVideo (exampleLesson 2) ?v ?st") simp
  have fv: "findVideo (exampleLesson 2) = Inr ''https://media.example/v.mp4''"
    by (simp add: exampleLesson_def)
  have fn: "filename ?v @ ''.mp4'' = ''1._Basics.01.Types.mp4''" by simp
  have tr: "trace ?st = []" by (simp add: trace_writeFile emptyProc_def)
  from video_file_left_empty [OF d q] fv
  have "files st' ''1._Basics.01.Types.mp4'' = Some []
      \<and> trace st' = [Create ''1._Basics.01.Types.mp4'', HttpGet ''https://media.example/v.mp4'']"
    unfolding fn tr by auto
  with d have "case downloadVideo (exampleLesson 2) ?v ?st of
         (r, st') \<Rightarrow> r = Some (BadStatus ''403 Forbidden'')
                    \<and> files st' ''1._Basics.01.Types.mp4'' = Some []
                    \<and> trace st' = [Create ''1._Basics.01.Types.mp4'',
                                   HttpGet ''https://media.example/v.mp4'']"
    by simp
  with q o show ?thesis by (intro conjI)
qed

end
